theory Spec2Isabelle
  imports Complex_Main "HOL-Library.Multiset" "HOL-Library.Sublist"
begin

chapter \<open>The model\<close>

section \<open>Bounded queues and the enqueue path (async\_bot\_handler.py)\<close>

text \<open>
  \<^verbatim>\<open>asyncio.Queue(maxsize=n)\<close> as the list of its items, oldest first. \<^verbatim>\<open>full()\<close> is
  \<^verbatim>\<open>maxsize > 0 and qsize() >= maxsize\<close>.
\<close>

record 'a queue =
  maxsize :: nat
  items :: "'a list"

definition qsize :: "'a queue \<Rightarrow> nat" where
  "qsize q = length (items q)"

definition full :: "'a queue \<Rightarrow> bool" where
  "full q = (0 < maxsize q \<and> maxsize q \<le> qsize q)"

text \<open>
  What awaiting \<^verbatim>\<open>queue.put(item)\<close> does when it is scheduled: the coroutine repeats
  \<^verbatim>\<open>while self.full(): await putter\<close>, so on a full queue it is suspended until a consumer
  frees a slot; otherwise it appends the item. \<^verbatim>\<open>put_nowait\<close> is the call that raises
  \<^verbatim>\<open>QueueFull\<close> instead.
\<close>

datatype 'a put_result = Put_done 'a | Put_suspended | Put_QueueFull

definition put :: "'a queue \<Rightarrow> 'a \<Rightarrow> 'a queue put_result" where
  "put q x = (if full q then Put_suspended else Put_done (q\<lparr>items := items q @ [x]\<rparr>))"

definition put_nowait :: "'a queue \<Rightarrow> 'a \<Rightarrow> 'a queue put_result" where
  "put_nowait q x = (if full q then Put_QueueFull else Put_done (q\<lparr>items := items q @ [x]\<rparr>))"

record stats =
  messages_processed :: nat
  files_processed :: nat
  start_time :: real
  errors :: nat

record 'a async_bot_handler =
  message_queue :: "'a queue"
  callback_queue :: "'a queue"
  file_queue :: "'a queue"
  stats :: stats

definition init_async_bot_handler :: "real \<Rightarrow> 'a async_bot_handler" where
  "init_async_bot_handler now =
     \<lparr>message_queue = \<lparr>maxsize = 1000, items = []\<rparr>,
      callback_queue = \<lparr>maxsize = 500, items = []\<rparr>,
      file_queue = \<lparr>maxsize = 100, items = []\<rparr>,
      stats = \<lparr>messages_processed = 0, files_processed = 0, start_time = now, errors = 0\<rparr>\<rparr>"

text \<open>
  The three enqueue methods. The result is \<open>Some b\<close> when the call returns \<open>b\<close> and
  \<open>None\<close> when the call is suspended inside \<^verbatim>\<open>await queue.put(...)\<close> and does not return.
  The \<^verbatim>\<open>except asyncio.QueueFull\<close> branch returns \<open>False\<close>.
\<close>

definition add_message_to_queue ::
  "'a async_bot_handler \<Rightarrow> 'a \<Rightarrow> bool option \<times> 'a async_bot_handler" where
  "add_message_to_queue h message_data =
     (case put (message_queue h) message_data of
        Put_done q \<Rightarrow> (Some True, h\<lparr>message_queue := q\<rparr>)
      | Put_QueueFull \<Rightarrow> (Some False, h)
      | Put_suspended \<Rightarrow> (None, h))"

definition add_callback_to_queue ::
  "'a async_bot_handler \<Rightarrow> 'a \<Rightarrow> bool option \<times> 'a async_bot_handler" where
  "add_callback_to_queue h callback_data =
     (case put (callback_queue h) callback_data of
        Put_done q \<Rightarrow> (Some True, h\<lparr>callback_queue := q\<rparr>)
      | Put_QueueFull \<Rightarrow> (Some False, h)
      | Put_suspended \<Rightarrow> (None, h))"

definition add_file_to_queue ::
  "'a async_bot_handler \<Rightarrow> 'a \<Rightarrow> bool option \<times> 'a async_bot_handler" where
  "add_file_to_queue h file_data =
     (case put (file_queue h) file_data of
        Put_done q \<Rightarrow> (Some True, h\<lparr>file_queue := q\<rparr>)
      | Put_QueueFull \<Rightarrow> (Some False, h)
      | Put_suspended \<Rightarrow> (None, h))"

text \<open>
  A run of enqueue calls with no consumer in between: the call that is suspended never
  returns, so the calls after it are not made.
\<close>

fun enqueue_messages ::
  "'a async_bot_handler \<Rightarrow> 'a list \<Rightarrow> bool option list \<times> 'a async_bot_handler" where
  "enqueue_messages h [] = ([], h)"
| "enqueue_messages h (m # ms) =
     (case add_message_to_queue h m of
        (None, h') \<Rightarrow> ([None], h')
      | (Some b, h') \<Rightarrow> (case enqueue_messages h' ms of (rs, h'') \<Rightarrow> (Some b # rs, h'')))"

section \<open>Queue workers and their handlers (async\_bot\_handler.py)\<close>

text \<open>
  How an awaited call ends for its caller: it returns, or it raises an \<^verbatim>\<open>Exception\<close>.
  A line of \<^verbatim>\<open>logger.error\<close> is recorded by the place that writes it.
\<close>

datatype outcome = Returns | Raises

datatype worker_status = Waiting | Stopped

datatype log_entry =
    Passport_error
  | Process_file_error
  | Process_callback_error
  | File_worker_error
  | Callback_worker_error
  | Message_worker_error

text \<open>
  \<^verbatim>\<open>try: ... except Exception as e: logger.error(...)\<close> around a body whose result is
  given: an exception of the body is logged and the function returns.
\<close>

definition catch_and_log ::
  "log_entry \<Rightarrow> outcome \<times> log_entry list \<times> 's \<Rightarrow> outcome \<times> log_entry list \<times> 's" where
  "catch_and_log entry r =
     (case r of
        (Raises, lg, s) \<Rightarrow> (Returns, lg @ [entry], s)
      | (Returns, lg, s) \<Rightarrow> (Returns, lg, s))"

record 'i file_data =
  file_type :: string
  file_user_id :: string
  file_info :: 'i

record 'd callback_data =
  callback_type :: string
  callback_user_id :: string
  callback_payload :: 'd

text \<open>
  \<^verbatim>\<open>_handle_passport_upload_async\<close>: its body (download, image processing, rename, reply;
  \<open>io\<close>, on the state \<open>'s\<close> of the network and the disk) runs inside
  \<^verbatim>\<open>try ... except Exception\<close>.
\<close>

definition handle_passport_upload_async ::
  "('s \<Rightarrow> string \<Rightarrow> 'i \<Rightarrow> outcome \<times> 's) \<Rightarrow> log_entry list \<Rightarrow> 's \<Rightarrow> string \<Rightarrow> 'i \<Rightarrow>
     outcome \<times> log_entry list \<times> 's" where
  "handle_passport_upload_async io lg s user_id info =
     catch_and_log Passport_error (case io s user_id info of (out, s') \<Rightarrow> (out, lg, s'))"

text \<open>
  \<^verbatim>\<open>_process_file_async\<close>: the dispatch on the type inside \<^verbatim>\<open>try ... except Exception\<close>.
  The class defines no method \<^verbatim>\<open>_handle_console_image_upload_async\<close>, so that branch
  raises \<^verbatim>\<open>AttributeError\<close>, inside the \<^verbatim>\<open>try\<close>.
\<close>

definition process_file_async ::
  "('s \<Rightarrow> string \<Rightarrow> 'i \<Rightarrow> outcome \<times> 's) \<Rightarrow> log_entry list \<Rightarrow> 's \<Rightarrow> 'i file_data \<Rightarrow>
     outcome \<times> log_entry list \<times> 's" where
  "process_file_async io lg s file_data =
     catch_and_log Process_file_error
       (if file_type file_data = ''passport''
        then handle_passport_upload_async io lg s (file_user_id file_data) (file_info file_data)
        else if file_type file_data = ''console_image'' then (Raises, lg, s)
        else (Returns, lg, s))"

text \<open>
  \<^verbatim>\<open>_process_callback_async\<close>: likewise; none of the three methods it dispatches to
  (\<^verbatim>\<open>_handle_rent_console_async\<close>, \<^verbatim>\<open>_handle_end_rental_async\<close>,
  \<^verbatim>\<open>_handle_extend_rental_async\<close>) is defined.
\<close>

definition process_callback_async ::
  "log_entry list \<Rightarrow> 's \<Rightarrow> 'd callback_data \<Rightarrow> outcome \<times> log_entry list \<times> 's" where
  "process_callback_async lg s callback_data =
     catch_and_log Process_callback_error
       (if callback_type callback_data = ''rent_console'' then (Raises, lg, s)
        else if callback_type callback_data = ''end_rental'' then (Raises, lg, s)
        else if callback_type callback_data = ''extend_rental'' then (Raises, lg, s)
        else (Returns, lg, s))"

text \<open>
  \<^verbatim>\<open>_file_worker\<close>: \<^verbatim>\<open>while True\<close> over the queued items. With the queue empty the loop is
  blocked in \<^verbatim>\<open>await self.file_queue.get()\<close> and still alive (\<open>Waiting\<close>).
  \<open>cancel = Some i\<close> delivers \<^verbatim>\<open>asyncio.CancelledError\<close> during the \<open>i\<close>-th round of the
  loop, which leaves the loop (\<open>Stopped\<close>). An \<^verbatim>\<open>Exception\<close> that reaches the worker is
  logged and counted in \<^verbatim>\<open>stats['errors']\<close>. The result is the status, the items still
  queued, the counters, the log and the state of the handlers.
\<close>

fun file_worker ::
  "('s \<Rightarrow> string \<Rightarrow> 'i \<Rightarrow> outcome \<times> 's) \<Rightarrow> nat option \<Rightarrow> 'i file_data list \<Rightarrow> stats \<Rightarrow>
     log_entry list \<Rightarrow> 's \<Rightarrow>
     worker_status \<times> 'i file_data list \<times> stats \<times> log_entry list \<times> 's" where
  "file_worker io cancel [] st lg s =
     (if cancel = Some 0 then Stopped else Waiting, [], st, lg, s)"
| "file_worker io cancel (file_data # q) st lg s =
     (if cancel = Some 0 then (Stopped, q, st, lg, s)
      else case process_file_async io lg s file_data of
        (Returns, lg', s') \<Rightarrow>
          file_worker io (map_option (\<lambda>i. i - 1) cancel) q
            (st\<lparr>files_processed := files_processed st + 1\<rparr>) lg' s'
      | (Raises, lg', s') \<Rightarrow>
          file_worker io (map_option (\<lambda>i. i - 1) cancel) q
            (st\<lparr>errors := errors st + 1\<rparr>) (lg' @ [File_worker_error]) s')"

text \<open>\<^verbatim>\<open>_callback_worker\<close>: the same loop, with no counter of processed items.\<close>

fun callback_worker ::
  "nat option \<Rightarrow> 'd callback_data list \<Rightarrow> stats \<Rightarrow> log_entry list \<Rightarrow> 's \<Rightarrow>
     worker_status \<times> 'd callback_data list \<times> stats \<times> log_entry list \<times> 's" where
  "callback_worker cancel [] st lg s =
     (if cancel = Some 0 then Stopped else Waiting, [], st, lg, s)"
| "callback_worker cancel (callback_data # q) st lg s =
     (if cancel = Some 0 then (Stopped, q, st, lg, s)
      else case process_callback_async lg s callback_data of
        (Returns, lg', s') \<Rightarrow> callback_worker (map_option (\<lambda>i. i - 1) cancel) q st lg' s'
      | (Raises, lg', s') \<Rightarrow>
          callback_worker (map_option (\<lambda>i. i - 1) cancel) q
            (st\<lparr>errors := errors st + 1\<rparr>) (lg' @ [Callback_worker_error]) s')"

section \<open>MemoryOptimizer (performance\_optimizer.py)\<close>

record memory_optimizer =
  memory_threshold :: real
  gc_interval :: real
  last_gc :: real

record memory_info =
  total_gb :: real
  used_gb :: real
  available_gb :: real
  percent_used :: real

definition init_memory_optimizer :: "real \<Rightarrow> memory_optimizer" where
  "init_memory_optimizer now = \<lparr>memory_threshold = 0.8, gc_interval = 30, last_gc = now\<rparr>"

text \<open>
  \<^verbatim>\<open>optimize_memory(force)\<close>. The environment supplies \<^verbatim>\<open>time.time()\<close> and the two
  readings of \<^verbatim>\<open>check_memory_usage()\<close> (\<open>None\<close> when the call raises, which the
  \<^verbatim>\<open>except Exception\<close> turns into \<open>False\<close>). The result is the returned boolean, whether
  \<^verbatim>\<open>gc.collect()\<close> was called, and the optimizer afterwards.
\<close>

definition optimize_memory ::
  "memory_optimizer \<Rightarrow> bool \<Rightarrow> real \<Rightarrow> memory_info option \<Rightarrow> memory_info option \<Rightarrow>
     bool \<times> bool \<times> memory_optimizer" where
  "optimize_memory mo force current_time reading1 reading2 =
     (case reading1 of
        None \<Rightarrow> (False, False, mo)
      | Some memory_info \<Rightarrow>
          if force \<or> percent_used memory_info > memory_threshold mo * 100
               \<or> current_time - last_gc mo > gc_interval mo
          then (case reading2 of
                  None \<Rightarrow> (False, True, mo\<lparr>last_gc := current_time\<rparr>)
                | Some new_memory_info \<Rightarrow> (True, True, mo\<lparr>last_gc := current_time\<rparr>))
          else (False, False, mo))"

section \<open>MultiCoreDataProcessor (performance\_optimizer.py)\<close>

record multi_core_data_processor =
  cpu_count :: nat
  max_processes :: nat
  chunk_size :: nat

text \<open>\<^verbatim>\<open>os.cpu_count() or 1\<close>: \<open>None\<close> and \<open>0\<close> both give \<open>1\<close>.\<close>

definition init_multi_core_data_processor :: "nat option \<Rightarrow> multi_core_data_processor" where
  "init_multi_core_data_processor os_cpu_count =
     (let c = (case os_cpu_count of None \<Rightarrow> 1 | Some n \<Rightarrow> if n = 0 then 1 else n);
          m = min 8 c
      in \<lparr>cpu_count = c, max_processes = m, chunk_size = max 1 (1000 div m)\<rparr>)"

text \<open>\<^verbatim>\<open>[data[i:i + chunk_size] for i in range(0, len(data), chunk_size)]\<close>, for a positive step.\<close>

function chunks :: "nat \<Rightarrow> 'a list \<Rightarrow> 'a list list" where
  "chunks n xs = (if n = 0 \<or> xs = [] then [] else take n xs # chunks n (drop n xs))"
  by pat_completeness auto
termination
  by (relation "measure (\<lambda>(n, xs). length xs)") auto

declare chunks.simps [simp del]

text \<open>
  \<^verbatim>\<open>_process_chunk\<close>: the results of the chunk, or the empty list when the function
  raises on one of its items (\<open>None\<close>).
\<close>

definition process_chunk :: "('a \<Rightarrow> 'b option) \<Rightarrow> 'a list \<Rightarrow> 'b list" where
  "process_chunk operation_func chunk =
     (case those (map operation_func chunk) of None \<Rightarrow> [] | Some rs \<Rightarrow> rs)"

text \<open>
  \<^verbatim>\<open>process_data_parallel\<close>. \<^verbatim>\<open>as_completed(futures)\<close> yields the futures in the order in
  which the pool finishes them, which the scheduler decides: \<open>completed\<close> lists the chunk
  indices in that order. A pool of size \<open>0\<close> and a step of \<open>0\<close> raise \<^verbatim>\<open>ValueError\<close> inside
  the \<^verbatim>\<open>try\<close>, which falls back to the sequential comprehension; there an exception of
  the function leaves the call (\<open>None\<close>).
\<close>

definition process_data_parallel ::
  "multi_core_data_processor \<Rightarrow> nat list \<Rightarrow> 'a list \<Rightarrow> ('a \<Rightarrow> 'b option) \<Rightarrow> 'b list option" where
  "process_data_parallel p completed data operation_func =
     (if data = [] then Some []
      else if max_processes p = 0 \<or> chunk_size p = 0 then those (map operation_func data)
      else (let futures = map (process_chunk operation_func) (chunks (chunk_size p) data);
                results = map (\<lambda>i. futures ! i) completed
            in Some (concat results)))"

section \<open>TTLCache (cachetools), as the repository uses it\<close>

text \<open>
  \<^verbatim>\<open>TTLCache(maxsize, ttl)\<close>: the links, least recently used first, each with its key,
  its value and the time it expires. The clock reading is an argument of every operation.
  \<^item> \<^verbatim>\<open>key in cache\<close> is true when the key has a link that has not expired
    (\<^verbatim>\<open>timer() < link.expires\<close>);
  \<^item> \<^verbatim>\<open>cache[key]\<close> moves the link to the most recently used end and gives the value, or
    raises \<^verbatim>\<open>KeyError\<close> (\<open>None\<close>);
  \<^item> \<^verbatim>\<open>cache[key] = value\<close> drops the expired links, then, for a key that is not
    stored, pops least recently used links while the cache is full, and stores the key
    at the most recently used end, expiring at \<open>now + ttl\<close>.
\<close>

record ('k, 'v) ttl_cache =
  cache_maxsize :: nat
  cache_ttl :: real
  links :: "('k \<times> 'v \<times> real) list"

definition TTLCache :: "nat \<Rightarrow> real \<Rightarrow> ('k, 'v) ttl_cache" where
  "TTLCache n t = \<lparr>cache_maxsize = n, cache_ttl = t, links = []\<rparr>"

definition ttl_contains :: "('k, 'v) ttl_cache \<Rightarrow> 'k \<Rightarrow> real \<Rightarrow> bool" where
  "ttl_contains c k now =
     (case map_of (links c) k of None \<Rightarrow> False | Some (v, expires) \<Rightarrow> now < expires)"

definition ttl_getitem ::
  "('k, 'v) ttl_cache \<Rightarrow> 'k \<Rightarrow> real \<Rightarrow> 'v option \<times> ('k, 'v) ttl_cache" where
  "ttl_getitem c k now =
     (case map_of (links c) k of
        None \<Rightarrow> (None, c)
      | Some (v, expires) \<Rightarrow>
          (if now < expires then Some v else None,
           c\<lparr>links := filter (\<lambda>l. fst l \<noteq> k) (links c) @ [(k, v, expires)]\<rparr>))"

definition ttl_expire :: "real \<Rightarrow> ('k \<times> 'v \<times> real) list \<Rightarrow> ('k \<times> 'v \<times> real) list" where
  "ttl_expire now ls = filter (\<lambda>l. now < snd (snd l)) ls"

text \<open>\<^verbatim>\<open>while self.currsize + 1 > maxsize: self.popitem()\<close>, every value having size 1.\<close>

fun ttl_popitems :: "nat \<Rightarrow> ('k \<times> 'v \<times> real) list \<Rightarrow> ('k \<times> 'v \<times> real) list" where
  "ttl_popitems n [] = []"
| "ttl_popitems n (l # ls) = (if n < length (l # ls) + 1 then ttl_popitems n ls else l # ls)"

definition ttl_setitem ::
  "('k, 'v) ttl_cache \<Rightarrow> 'k \<Rightarrow> 'v \<Rightarrow> real \<Rightarrow> ('k, 'v) ttl_cache" where
  "ttl_setitem c k v now =
     (let live = ttl_expire now (links c);
          room = (if map_of live k = None then ttl_popitems (cache_maxsize c) live else live)
      in c\<lparr>links := filter (\<lambda>l. fst l \<noteq> k) room @ [(k, v, now + cache_ttl c)]\<rparr>)"

section \<open>Files, dictionaries and the JSON codec\<close>

text \<open>
  A file is its bytes and its modification time; the file system maps a path to its file.
  Strings are byte strings (UTF-8), so \<open>length\<close> is \<^verbatim>\<open>len(s.encode('utf-8'))\<close> and
  \<^verbatim>\<open>os.path.getsize\<close>. Directories are not modelled.
\<close>

record stored_file =
  content :: string
  mtime :: real

type_synonym file_system = "string \<rightharpoonup> stored_file"

datatype os_name = Posix | Nt

text \<open>
  A dictionary object is a cell of the heap, addressed by its index; its contents are the
  top-level association of keys to values. \<^verbatim>\<open>d.copy()\<close> and a dictionary display allocate a new
  cell; the values inside are shared, not copied.
\<close>

type_synonym 'v dict = "(string \<times> 'v) list"
type_synonym addr = nat
type_synonym 'v heap = "'v dict list"

definition new_dict :: "'v heap \<Rightarrow> 'v dict \<Rightarrow> addr \<times> 'v heap" where
  "new_dict h d = (length h, h @ [d])"

definition dict_copy :: "'v heap \<Rightarrow> addr \<Rightarrow> addr \<times> 'v heap" where
  "dict_copy h a = new_dict h (h ! a)"

text \<open>
  What the code takes from the platform and the standard library: \<^verbatim>\<open>os.name\<close>,
  \<^verbatim>\<open>os.path.join\<close>, \<^verbatim>\<open>json.dumps(data, ensure_ascii=False)\<close>, the same with
  \<^verbatim>\<open>indent=2, separators=(',', ':')\<close>, and \<^verbatim>\<open>json.loads\<close>; \<open>None\<close> is a raised exception.
\<close>

record 'v platform =
  os_name :: os_name
  path_join :: "string \<Rightarrow> string \<Rightarrow> string"
  json_dumps :: "'v dict \<Rightarrow> string option"
  json_dumps_indent :: "'v dict \<Rightarrow> string option"
  json_loads :: "string \<Rightarrow> 'v dict option"

text \<open>\<^verbatim>\<open>posixpath.join\<close> of two components.\<close>

definition posix_join :: "string \<Rightarrow> string \<Rightarrow> string" where
  "posix_join a b =
     (if b \<noteq> [] \<and> hd b = CHR ''/'' then b
      else if a = [] \<or> last a = CHR ''/'' then a @ b
      else a @ ''/'' @ b)"

text \<open>\<^verbatim>\<open>s.replace(old, '')\<close> for a non-empty \<open>old\<close>: every occurrence, left to right.\<close>

function str_remove :: "string \<Rightarrow> string \<Rightarrow> string" where
  "str_remove old s =
     (if old = [] \<or> s = [] then s
      else if prefix old s then str_remove old (drop (length old) s)
      else hd s # str_remove old (tl s))"
  by pat_completeness auto
termination
  by (relation "measure (\<lambda>(old, s). length s)") auto

declare str_remove.simps [simp del]

text \<open>ASCII white space, for \<^verbatim>\<open>content.strip()\<close> being empty.\<close>

definition is_space :: "char \<Rightarrow> bool" where
  "is_space c = (c \<in> set [CHR 0x09, CHR 0x0A, CHR 0x0B, CHR 0x0C, CHR 0x0D,
                          CHR 0x1C, CHR 0x1D, CHR 0x1E, CHR 0x1F, CHR 0x20])"

section \<open>HighPerformanceFileHandler (performance\_optimizer.py)\<close>

text \<open>
  The system calls of \<^verbatim>\<open>_write_file_async\<close>, one step each; the text is written a byte at
  a time, so that a write interrupted anywhere is a prefix of the steps. A step gives
  \<open>None\<close> when the call raises. \<^verbatim>\<open>os.rename\<close> replaces the target, except on Windows,
  where an existing target makes it raise.
\<close>

datatype fs_step =
    Open_w string real
  | Write_byte string char
  | Remove_if_exists string
  | Rename string string
  | Raise_error

fun apply_step :: "os_name \<Rightarrow> fs_step \<Rightarrow> file_system \<Rightarrow> file_system option" where
  "apply_step os (Open_w p t) fs = Some (fs(p \<mapsto> \<lparr>content = [], mtime = t\<rparr>))"
| "apply_step os (Write_byte p c) fs =
     (case fs p of None \<Rightarrow> None | Some f \<Rightarrow> Some (fs(p \<mapsto> f\<lparr>content := content f @ [c]\<rparr>)))"
| "apply_step os (Remove_if_exists p) fs = Some (fs(p := None))"
| "apply_step os (Rename src dst) fs =
     (case fs src of
        None \<Rightarrow> None
      | Some f \<Rightarrow> if os = Nt \<and> fs dst \<noteq> None then None else Some ((fs(src := None))(dst \<mapsto> f)))"
| "apply_step os Raise_error fs = None"

text \<open>
  Running the steps. \<open>fault = Some i\<close> makes the \<open>i\<close>-th call raise an I/O error. The result
  says whether every step was done, with the file system where the run stopped.
\<close>

fun run_steps ::
  "os_name \<Rightarrow> fs_step list \<Rightarrow> nat option \<Rightarrow> file_system \<Rightarrow> bool \<times> file_system" where
  "run_steps os [] fault fs = (True, fs)"
| "run_steps os (st # sts) fault fs =
     (if fault = Some 0 then (False, fs)
      else case apply_step os st fs of
             None \<Rightarrow> (False, fs)
           | Some fs' \<Rightarrow> run_steps os sts (map_option (\<lambda>i. i - 1) fault) fs')"

text \<open>
  The body of the \<^verbatim>\<open>try\<close> in \<^verbatim>\<open>_write_file_async(file_path, data)\<close>, \<open>json\<close> being what
  \<^verbatim>\<open>json.dumps\<close> gives for the data: open the temporary file for writing, serialise, write,
  close, then replace the target (on Windows: remove the target if it exists, then
  rename).
\<close>

definition write_steps :: "os_name \<Rightarrow> string \<Rightarrow> string option \<Rightarrow> real \<Rightarrow> fs_step list" where
  "write_steps os file_path json stamp =
     (let temp_path = file_path @ ''.tmp'' in
      Open_w temp_path stamp #
      (case json of
         None \<Rightarrow> [Raise_error]
       | Some json_str \<Rightarrow>
           map (Write_byte temp_path) json_str @
           (if os = Nt then [Remove_if_exists file_path, Rename temp_path file_path]
            else [Rename temp_path file_path])))"

text \<open>
  \<^verbatim>\<open>_write_file_async\<close>: \<open>Some True\<close> when the steps are done; otherwise the
  \<^verbatim>\<open>except\<close> removes the temporary file if it exists and the result is \<open>Some False\<close>.
  The faults of a call are a pair: the index of the system call of the \<^verbatim>\<open>try\<close> body
  that raises, if any, and whether the \<^verbatim>\<open>os.remove\<close> of the handler raises; then the
  exception leaves the function (\<open>None\<close>) with the temporary file in place.
\<close>

definition write_file_async ::
  "os_name \<Rightarrow> file_system \<Rightarrow> string \<Rightarrow> string option \<Rightarrow> real \<Rightarrow> nat option \<times> bool \<Rightarrow>
     bool option \<times> file_system" where
  "write_file_async os fs file_path json stamp fault =
     (case run_steps os (write_steps os file_path json stamp) (fst fault) fs of
        (True, fs') \<Rightarrow> (Some True, fs')
      | (False, fs') \<Rightarrow>
          if fs' (file_path @ ''.tmp'') \<noteq> None \<and> snd fault then (None, fs')
          else (Some False, fs'(file_path @ ''.tmp'' := None)))"

text \<open>
  A crash of the process after \<open>k\<close> system calls of the write: the first \<open>k\<close> steps are
  done, nothing after them, and no handler runs.
\<close>

definition crash_during_write ::
  "os_name \<Rightarrow> file_system \<Rightarrow> string \<Rightarrow> string option \<Rightarrow> real \<Rightarrow> nat \<Rightarrow> file_system" where
  "crash_during_write os fs file_path json stamp k =
     snd (run_steps os (take k (write_steps os file_path json stamp)) None fs)"

text \<open>
  The handler's own cache is keyed by \<^verbatim>\<open>f"{file_path}:{operation}:{mtime}"\<close>, modelled as the
  triple of its parts.
\<close>

record high_performance_file_handler =
  max_file_size :: nat
  fh_cache :: "(string \<times> string \<times> real, addr) ttl_cache"

definition init_file_handler :: high_performance_file_handler where
  "init_file_handler = \<lparr>max_file_size = 50 * 1024 * 1024, fh_cache = TTLCache 1000 300\<rparr>"

text \<open>
  \<^verbatim>\<open>_read_file_async\<close>: the parsed document as a new dictionary, or a new empty dictionary
  when the file is missing, blank or does not parse.
\<close>

definition read_file_async ::
  "'v platform \<Rightarrow> file_system \<Rightarrow> 'v heap \<Rightarrow> string \<Rightarrow> addr \<times> 'v heap" where
  "read_file_async P fs h file_path =
     (case fs file_path of
        None \<Rightarrow> new_dict h []
      | Some f \<Rightarrow>
          if list_all is_space (content f) then new_dict h []
          else (case json_loads P (content f) of
                  None \<Rightarrow> new_dict h []
                | Some d \<Rightarrow> new_dict h d))"

text \<open>
  \<^verbatim>\<open>process_file_async(file_path, 'read')\<close>. \<^verbatim>\<open>key in cache\<close> followed by \<^verbatim>\<open>cache[key]\<close>
  reads the clock once here, so the test is whether \<open>ttl_getitem\<close> gives a value.
\<close>

definition process_file_async_read ::
  "'v platform \<Rightarrow> high_performance_file_handler \<Rightarrow> file_system \<Rightarrow> 'v heap \<Rightarrow> string \<Rightarrow> real \<Rightarrow>
     addr option \<times> high_performance_file_handler \<times> 'v heap" where
  "process_file_async_read P fh fs h file_path now =
     (let file_size = (case fs file_path of None \<Rightarrow> 0 | Some f \<Rightarrow> length (content f)) in
      if file_size > max_file_size fh then (None, fh, h)
      else
        let cache_key =
              (file_path, ''read'', case fs file_path of None \<Rightarrow> 0 | Some f \<Rightarrow> mtime f)
        in case ttl_getitem (fh_cache fh) cache_key now of
             (Some a, c') \<Rightarrow> (Some a, fh\<lparr>fh_cache := c'\<rparr>, h)
           | (None, c') \<Rightarrow>
               (case read_file_async P fs h file_path of
                  (result, h') \<Rightarrow>
                    (Some result,
                     fh\<lparr>fh_cache := ttl_setitem (fh_cache fh) cache_key result now\<rparr>, h')))"

section \<open>AsyncDatabaseManager (performance\_optimizer.py)\<close>

record async_database_manager =
  data_dir :: string
  file_handler :: high_performance_file_handler
  db_cache :: "(string, addr) ttl_cache"

definition init_db_manager :: "string \<Rightarrow> async_database_manager" where
  "init_db_manager dir =
     \<lparr>data_dir = dir, file_handler = init_file_handler, db_cache = TTLCache 500 60\<rparr>"

record 'v world =
  files :: file_system
  heap :: "'v heap"
  db :: async_database_manager

text \<open>
  \<^verbatim>\<open>load_data(filename)\<close> at clock reading \<open>now\<close>: the address of the returned dictionary
  and the world afterwards. On a hit the result is a copy of the cached dictionary; on a
  miss the result is what the file handler gave (\<^verbatim>\<open>or {}\<close>: a new empty dictionary when
  that is \<^verbatim>\<open>None\<close> or empty) and a copy of it is cached.
\<close>

definition load_data :: "'v platform \<Rightarrow> 'v world \<Rightarrow> string \<Rightarrow> real \<Rightarrow> addr \<times> 'v world" where
  "load_data P w filename now =
     (let file_path = path_join P (data_dir (db w)) filename;
          cache_key = ''load:'' @ filename
      in case ttl_getitem (db_cache (db w)) cache_key now of
           (Some cached, c') \<Rightarrow>
             (case dict_copy (heap w) cached of
                (a, h') \<Rightarrow> (a, w\<lparr>heap := h', db := (db w)\<lparr>db_cache := c'\<rparr>\<rparr>))
         | (None, c') \<Rightarrow>
             (case process_file_async_read P (file_handler (db w)) (files w) (heap w)
                     file_path now of
                (r, fh', h1) \<Rightarrow>
                  (case (case r of
                           None \<Rightarrow> new_dict h1 []
                         | Some a \<Rightarrow> if h1 ! a = [] then new_dict h1 [] else (a, h1)) of
                     (data, h2) \<Rightarrow>
                       (case dict_copy h2 data of
                          (c, h3) \<Rightarrow>
                            (data,
                             w\<lparr>heap := h3,
                               db := (db w)\<lparr>file_handler := fh',
                                 db_cache := ttl_setitem (db_cache (db w)) cache_key c now\<rparr>\<rparr>)))))"

text \<open>
  \<^verbatim>\<open>_archive_large_data(filename, data)\<close>: writes the dictionary it is given to
  \<^verbatim>\<open>{data_dir}/archives/{name}_archive_{timestamp}.json\<close>; a write that fails or raises
  is only logged.
\<close>

definition archive_file_path :: "'v platform \<Rightarrow> string \<Rightarrow> string \<Rightarrow> string \<Rightarrow> string" where
  "archive_file_path P dir filename timestamp =
     (let archive_filename = str_remove ''.json'' filename @ ''_archive_'' @ timestamp @ ''.json'';
          archive_path = path_join P dir ''archives''
      in path_join P archive_path archive_filename)"

definition archive_large_data ::
  "'v platform \<Rightarrow> 'v world \<Rightarrow> string \<Rightarrow> addr \<Rightarrow> string \<Rightarrow> real \<Rightarrow> nat option \<times> bool \<Rightarrow>
     'v world" where
  "archive_large_data P w filename data timestamp stamp fault =
     (let archive_file = archive_file_path P (data_dir (db w)) filename timestamp
      in case write_file_async (os_name P) (files w) archive_file
                (json_dumps_indent P (heap w ! data)) stamp fault of
           (ok, fs') \<Rightarrow> w\<lparr>files := fs'\<rparr>)"

text \<open>
  \<^verbatim>\<open>save_data(filename, data)\<close>, \<open>data\<close> being the address of the caller's dictionary. The
  environment gives the clock reading for the cache, the modification time and the faults
  of the write, and the \<^verbatim>\<open>strftime\<close> text for an archive name. An exception that leaves
  the write is caught by the \<^verbatim>\<open>except Exception\<close> of \<^verbatim>\<open>save_data\<close>, which returns \<open>False\<close>.
\<close>

definition save_data ::
  "'v platform \<Rightarrow> 'v world \<Rightarrow> string \<Rightarrow> addr \<Rightarrow> real \<Rightarrow> real \<Rightarrow> nat option \<times> bool \<Rightarrow> string \<Rightarrow>
     bool \<times> 'v world" where
  "save_data P w filename data now stamp fault timestamp =
     (let file_path = path_join P (data_dir (db w)) filename in
      case json_dumps P (heap w ! data) of
        None \<Rightarrow> (False, w)
      | Some json_str \<Rightarrow>
          if length json_str > max_file_size (file_handler (db w))
          then (False, archive_large_data P w filename data timestamp stamp fault)
          else
            (case write_file_async (os_name P) (files w) file_path
                    (json_dumps_indent P (heap w ! data)) stamp fault of
               (None, fs') \<Rightarrow> (False, w\<lparr>files := fs'\<rparr>)
             | (Some False, fs') \<Rightarrow> (False, w\<lparr>files := fs'\<rparr>)
             | (Some True, fs') \<Rightarrow>
                 (case dict_copy (heap w) data of
                    (c, h') \<Rightarrow>
                      (True,
                       w\<lparr>files := fs', heap := h',
                         db := (db w)\<lparr>db_cache :=
                           ttl_setitem (db_cache (db w)) (''load:'' @ filename) c now\<rparr>\<rparr>))))"

section \<open>The memoizing decorator and message processing\<close>

text \<open>
  \<^verbatim>\<open>async_cached(ttl)\<close> around a function: the key is
  \<^verbatim>\<open>f"{func.__name__}:{hash(str(args) + str(sorted(kwargs.items())))}"\<close>, the calls here
  passing no keyword arguments (\<^verbatim>\<open>str([])\<close> is \<^verbatim>\<open>[]\<close>). \<open>py_str\<close> is \<^verbatim>\<open>str\<close> of the argument
  tuple and \<open>py_hash\<close> the decimal text of \<^verbatim>\<open>hash\<close>. The wrapped function gives \<open>None\<close>
  when it raises, and then nothing is stored. The clock is read at the lookup (\<open>now\<close>)
  and again at the store (\<open>now'\<close>).
\<close>

definition cache_key_of :: "string \<Rightarrow> ('a \<Rightarrow> string) \<Rightarrow> (string \<Rightarrow> string) \<Rightarrow> 'a \<Rightarrow> string" where
  "cache_key_of func_name py_str py_hash args = func_name @ '':'' @ py_hash (py_str args @ ''[]'')"

definition async_cached ::
  "string \<Rightarrow> ('a \<Rightarrow> string) \<Rightarrow> (string \<Rightarrow> string) \<Rightarrow> ('s \<Rightarrow> 'a \<Rightarrow> 'r option \<times> 's) \<Rightarrow>
     (string, 'r) ttl_cache \<times> 's \<Rightarrow> 'a \<Rightarrow> real \<Rightarrow> real \<Rightarrow>
     'r option \<times> (string, 'r) ttl_cache \<times> 's" where
  "async_cached func_name py_str py_hash func st args now now' =
     (let cache_key = cache_key_of func_name py_str py_hash args in
      case ttl_getitem (fst st) cache_key now of
        (Some r, cache') \<Rightarrow> (Some r, cache', snd st)
      | (None, c') \<Rightarrow>
          (case func (snd st) args of
             (None, s') \<Rightarrow> (None, fst st, s')
           | (Some result, s') \<Rightarrow> (Some result, ttl_setitem (fst st) cache_key result now', s')))"

text \<open>
  \<^verbatim>\<open>_process_message_async\<close> under \<^verbatim>\<open>@async_cached(ttl=300)\<close>, whose cache is
  \<^verbatim>\<open>TTLCache(maxsize=100, ttl=300)\<close>. The body catches every exception and returns
  \<^verbatim>\<open>None\<close> (the unit value here); what it does to the bot's state is \<open>body\<close>, and the
  messages on which it ran are recorded in order.
\<close>

definition message_cache :: "(string, unit) ttl_cache" where
  "message_cache = TTLCache 100 300"

definition process_message_async ::
  "('a \<Rightarrow> string) \<Rightarrow> (string \<Rightarrow> string) \<Rightarrow> ('s \<Rightarrow> 'a \<Rightarrow> 's) \<Rightarrow>
     (string, unit) ttl_cache \<times> ('a list \<times> 's) \<Rightarrow> 'a \<Rightarrow> real \<Rightarrow> real \<Rightarrow>
     unit option \<times> (string, unit) ttl_cache \<times> ('a list \<times> 's)" where
  "process_message_async py_str py_hash body =
     async_cached ''_process_message_async'' py_str py_hash
       (\<lambda>s message_data. (Some (), fst s @ [message_data], body (snd s) message_data))"

text \<open>The message worker's calls on successive items, each with its two clock readings.\<close>

fun process_messages ::
  "('a \<Rightarrow> string) \<Rightarrow> (string \<Rightarrow> string) \<Rightarrow> ('s \<Rightarrow> 'a \<Rightarrow> 's) \<Rightarrow>
     (string, unit) ttl_cache \<times> ('a list \<times> 's) \<Rightarrow> ('a \<times> real \<times> real) list \<Rightarrow>
     (string, unit) ttl_cache \<times> ('a list \<times> 's)" where
  "process_messages py_str py_hash body st [] = st"
| "process_messages py_str py_hash body st (call # calls) =
     process_messages py_str py_hash body
       (snd (process_message_async py_str py_hash body st (fst call) (fst (snd call))
          (snd (snd call)))) calls"

text \<open>
  \<^verbatim>\<open>_message_worker\<close>: the loop of the file worker around the memoized
  \<^verbatim>\<open>_process_message_async\<close>, each queued message with the two clock readings of its call.
\<close>

fun message_worker ::
  "('a \<Rightarrow> string) \<Rightarrow> (string \<Rightarrow> string) \<Rightarrow> ('s \<Rightarrow> 'a \<Rightarrow> 's) \<Rightarrow> nat option \<Rightarrow>
     ('a \<times> real \<times> real) list \<Rightarrow> stats \<Rightarrow> log_entry list \<Rightarrow>
     (string, unit) ttl_cache \<times> ('a list \<times> 's) \<Rightarrow>
     worker_status \<times> ('a \<times> real \<times> real) list \<times> stats \<times> log_entry list
       \<times> (string, unit) ttl_cache \<times> ('a list \<times> 's)" where
  "message_worker py_str py_hash body cancel [] st lg s =
     (if cancel = Some 0 then Stopped else Waiting, [], st, lg, s)"
| "message_worker py_str py_hash body cancel (call # q) st lg s =
     (if cancel = Some 0 then (Stopped, q, st, lg, s)
      else case process_message_async py_str py_hash body s (fst call) (fst (snd call))
                  (snd (snd call)) of
        (Some r, s') \<Rightarrow>
          message_worker py_str py_hash body (map_option (\<lambda>i. i - 1) cancel) q
            (st\<lparr>messages_processed := messages_processed st + 1\<rparr>) lg s'
      | (None, s') \<Rightarrow>
          message_worker py_str py_hash body (map_option (\<lambda>i. i - 1) cancel) q
            (st\<lparr>errors := errors st + 1\<rparr>) (lg @ [Message_worker_error]) s')"

text \<open>
  Ten queued file items for concrete runs, the third of the type \<^verbatim>\<open>console_image\<close>, and
  a passport upload that goes through.
\<close>

definition passport_item :: "unit file_data" where
  "passport_item = \<lparr>file_type = ''passport'', file_user_id = ''1'', file_info = ()\<rparr>"

definition console_image_item :: "unit file_data" where
  "console_image_item = \<lparr>file_type = ''console_image'', file_user_id = ''1'', file_info = ()\<rparr>"

definition ten_files :: "unit file_data list" where
  "ten_files = [passport_item, passport_item, console_image_item, passport_item, passport_item,
                passport_item, passport_item, passport_item, passport_item, passport_item]"

definition upload_ok :: "nat \<Rightarrow> string \<Rightarrow> unit \<Rightarrow> outcome \<times> nat" where
  "upload_ok s user_id info = (Returns, s + 1)"

definition new_stats :: stats where
  "new_stats = \<lparr>messages_processed = 0, files_processed = 0, start_time = 0, errors = 0\<rparr>"


section \<open>A platform for concrete runs\<close>

text \<open>
  A POSIX platform whose codec is JSON for objects with string members that need no
  escape: the compact text with the default separators, the indented text as
  \<^verbatim>\<open>indent=2, separators=(',', ':')\<close> prints it, and a reader of both.
\<close>

definition dq :: char where
  "dq = CHR 0x22"

definition json_item :: "string \<Rightarrow> string \<times> string \<Rightarrow> string" where
  "json_item sep kv = [dq] @ fst kv @ [dq] @ sep @ [dq] @ snd kv @ [dq]"

fun join_with :: "string \<Rightarrow> string list \<Rightarrow> string" where
  "join_with sep [] = []"
| "join_with sep [x] = x"
| "join_with sep (x # y # ys) = x @ sep @ join_with sep (y # ys)"

definition example_dumps :: "string dict \<Rightarrow> string" where
  "example_dumps d = ''{'' @ join_with '', '' (map (json_item '': '') d) @ ''}''"

definition example_dumps_indent :: "string dict \<Rightarrow> string" where
  "example_dumps_indent d =
     (if d = [] then ''{}''
      else ''{'' @ [CHR 0x0A]
           @ join_with ('','' @ [CHR 0x0A]) (map (\<lambda>kv. ''  '' @ json_item '':'' kv) d)
           @ [CHR 0x0A] @ ''}'')"

fun read_string :: "string \<Rightarrow> (string \<times> string) option" where
  "read_string [] = None"
| "read_string (c # cs) =
     (if c = dq then Some ([], cs)
      else if c = CHR 0x5C then None
      else map_option (\<lambda>r. (c # fst r, snd r)) (read_string cs))"

fun parse_members :: "nat \<Rightarrow> string \<Rightarrow> string dict option" where
  "parse_members 0 s = None"
| "parse_members (Suc n) s =
     (case dropWhile is_space s of
        [] \<Rightarrow> None
      | q # r \<Rightarrow>
          if q \<noteq> dq then None
          else (case read_string r of
             None \<Rightarrow> None
           | Some (k, r1) \<Rightarrow>
               (case dropWhile is_space r1 of
                  [] \<Rightarrow> None
                | c1 # r2 \<Rightarrow>
                    if c1 \<noteq> CHR '':'' then None
                    else (case dropWhile is_space r2 of
                       [] \<Rightarrow> None
                     | q2 # r3 \<Rightarrow>
                         if q2 \<noteq> dq then None
                         else (case read_string r3 of
                            None \<Rightarrow> None
                          | Some (v, r4) \<Rightarrow>
                              (case dropWhile is_space r4 of
                                 [] \<Rightarrow> None
                               | c2 # r5 \<Rightarrow>
                                   if c2 = CHR '','' then
                                     map_option ((#) (k, v)) (parse_members n r5)
                                   else if c2 = CHR ''}'' \<and> dropWhile is_space r5 = []
                                   then Some [(k, v)]
                                   else None))))))"

definition example_loads :: "string \<Rightarrow> string dict option" where
  "example_loads s =
     (case dropWhile is_space s of
        [] \<Rightarrow> None
      | c # r \<Rightarrow>
          if c \<noteq> CHR ''{'' then None
          else (case dropWhile is_space r of
             [] \<Rightarrow> None
           | c' # r' \<Rightarrow>
               if c' = CHR ''}'' then (if dropWhile is_space r' = [] then Some [] else None)
               else parse_members (length s) r))"

definition example_platform :: "string platform" where
  "example_platform =
     \<lparr>os_name = Posix, path_join = posix_join,
      json_dumps = (\<lambda>d. Some (example_dumps d)),
      json_dumps_indent = (\<lambda>d. Some (example_dumps_indent d)),
      json_loads = example_loads\<rparr>"

text \<open>
  The documents and the world of the concrete runs: the directory \<^verbatim>\<open>data\<close> with one
  stored document, the caller holding two dictionaries.
\<close>

definition doc_A :: "string dict" where
  "doc_A = [(''1'', ''A'')]"

definition doc_AB :: "string dict" where
  "doc_AB = [(''1'', ''A''), (''2'', ''B'')]"

definition example_world :: "string world" where
  "example_world =
     \<lparr>files = [''data/users.json'' \<mapsto> \<lparr>content = ''{}'', mtime = 1\<rparr>],
      heap = [doc_A, doc_AB],
      db = init_db_manager ''data''\<rparr>"

text \<open>The world after saving the first dictionary at clock 10, and then the second at clock 20.\<close>

definition example_world_1 :: "string world" where
  "example_world_1 =
     \<lparr>files = [''data/users.json'' \<mapsto> \<lparr>content = example_dumps_indent doc_A, mtime = 2\<rparr>],
      heap = [doc_A, doc_AB, doc_A],
      db = (init_db_manager ''data'')\<lparr>db_cache :=
        \<lparr>cache_maxsize = 500, cache_ttl = 60, links = [(''load:users.json'', 2, 70)]\<rparr>\<rparr>\<rparr>"

definition example_world_2 :: "string world" where
  "example_world_2 =
     \<lparr>files = [''data/users.json'' \<mapsto> \<lparr>content = example_dumps_indent doc_AB, mtime = 3\<rparr>],
      heap = [doc_A, doc_AB, doc_A, doc_AB],
      db = (init_db_manager ''data'')\<lparr>db_cache :=
        \<lparr>cache_maxsize = 500, cache_ttl = 60, links = [(''load:users.json'', 3, 80)]\<rparr>\<rparr>\<rparr>"

text \<open>
  A document whose compact text is exactly as long as the 50 MB ceiling, and whose
  indented text, three bytes longer, is over it.
\<close>

definition doc_edge :: "string dict" where
  "doc_edge = [(''1'', replicate 52428791 (CHR ''A''))]"

definition edge_world :: "string world" where
  "edge_world =
     \<lparr>files = [''data/users.json'' \<mapsto> \<lparr>content = example_dumps_indent doc_A, mtime = 1\<rparr>],
      heap = [doc_edge],
      db = init_db_manager ''data''\<rparr>"

text \<open>
  A document whose compact text is longer than the 50 MB ceiling, held by the caller while
  the first example document is the one on disk.
\<close>

definition doc_big :: "string dict" where
  "doc_big = [(''1'', replicate 52428800 (CHR ''A''))]"

definition big_world :: "string world" where
  "big_world =
     \<lparr>files = [''data/users.json'' \<mapsto> \<lparr>content = example_dumps_indent doc_A, mtime = 1\<rparr>],
      heap = [doc_big],
      db = init_db_manager ''data''\<rparr>"

text \<open>
  Messages for concrete runs of the memoized handler: a message is a number, its text is
  the number in unary, the hash text is the text itself and the body leaves the bot's
  state alone. The hundred messages \<open>1, ..., 100\<close> are each looked up and stored at clock 1.
\<close>

definition example_str :: "nat \<Rightarrow> string" where
  "example_str n = replicate n (CHR ''x'')"

definition example_body :: "unit \<Rightarrow> nat \<Rightarrow> unit" where
  "example_body s m = s"

definition hundred_messages :: "(nat \<times> real \<times> real) list" where
  "hundred_messages = map (\<lambda>n. (n, 1, 1)) [1..<101]"

definition ninety_nine_messages :: "(nat \<times> real \<times> real) list" where
  "ninety_nine_messages = map (\<lambda>n. (n, 1, 1)) [1..<100]"

section \<open>An auxiliary notion: a key kept in the cache\<close>

text \<open>
  The key \<open>k\<close> has exactly one link, expiring no earlier than \<open>E\<close>, with at most \<open>j\<close>
  links more recently used than it.
\<close>

definition kept :: "'k \<Rightarrow> real \<Rightarrow> nat \<Rightarrow> ('k \<times> 'v \<times> real) list \<Rightarrow> bool" where
  "kept k E j ls =
     (\<exists>pre v e post. ls = pre @ (k, v, e) # post \<and> k \<notin> fst ` set pre \<and> k \<notin> fst ` set post
        \<and> E \<le> e \<and> length post \<le> j)"

chapter \<open>Properties\<close>

section \<open>The enqueue path\<close>

lemma add_message_never_False: "fst (add_message_to_queue h m) \<noteq> Some False"
  by (simp add: add_message_to_queue_def put_def)

lemma add_message_full:
  "full (message_queue h) \<Longrightarrow> add_message_to_queue h m = (None, h)"
  by (simp add: add_message_to_queue_def put_def)

lemma add_message_not_full:
  "\<not> full (message_queue h) \<Longrightarrow>
   add_message_to_queue h m =
     (Some True, h\<lparr>message_queue := (message_queue h)\<lparr>items := items (message_queue h) @ [m]\<rparr>\<rparr>)"
  by (simp add: add_message_to_queue_def put_def)

text \<open>The number of queued messages stays within a positive capacity.\<close>

lemma add_message_within_capacity:
  "0 < maxsize (message_queue h) \<Longrightarrow> qsize (message_queue h) \<le> maxsize (message_queue h) \<Longrightarrow>
   qsize (message_queue (snd (add_message_to_queue h m))) \<le> maxsize (message_queue h)"
  by (cases "full (message_queue h)")
     (auto simp: add_message_full add_message_not_full full_def qsize_def)

lemma enqueue_messages_room:
  "0 < maxsize (message_queue h) \<Longrightarrow>
   qsize (message_queue h) + length ms \<le> maxsize (message_queue h) \<Longrightarrow>
   enqueue_messages h ms =
     (replicate (length ms) (Some True),
      h\<lparr>message_queue := (message_queue h)\<lparr>items := items (message_queue h) @ ms\<rparr>\<rparr>)"
proof (induction ms arbitrary: h)
  case Nil
  then show ?case by simp
next
  case (Cons m ms)
  let ?h' = "h\<lparr>message_queue := (message_queue h)\<lparr>items := items (message_queue h) @ [m]\<rparr>\<rparr>"
  from Cons.prems have nf: "\<not> full (message_queue h)"
    by (simp add: full_def qsize_def)
  have "enqueue_messages ?h' ms =
     (replicate (length ms) (Some True),
      ?h'\<lparr>message_queue := (message_queue ?h')\<lparr>items := items (message_queue ?h') @ ms\<rparr>\<rparr>)"
    using Cons.prems by (intro Cons.IH) (simp_all add: qsize_def)
  then show ?case
    using nf by (simp add: add_message_not_full)
qed

lemma enqueue_messages_full:
  "full (message_queue h) \<Longrightarrow> ms \<noteq> [] \<Longrightarrow> enqueue_messages h ms = ([None], h)"
  by (cases ms) (simp_all add: add_message_full)

lemma enqueue_messages_append:
  "enqueue_messages h ms = (rs, h') \<Longrightarrow> None \<notin> set rs \<Longrightarrow>
   enqueue_messages h (ms @ ns) = (rs @ fst (enqueue_messages h' ns), snd (enqueue_messages h' ns))"
proof (induction ms arbitrary: h rs)
  case Nil
  then show ?case by simp
next
  case (Cons m ms)
  then show ?case
    by (auto split: prod.splits option.splits)
qed

text \<open>
  C3. The claim: at capacity the enqueue returns \<open>False\<close> at once, so 1200 enqueues against
  the message queue of capacity 1000 give 1000 times \<open>True\<close> and 200 times \<open>False\<close>. The
  code awaits \<^verbatim>\<open>put\<close>, which never raises \<^verbatim>\<open>QueueFull\<close>: of 1200 enqueues on a new handler
  with no consumer, the first 1000 return \<open>True\<close> and the next one is suspended and does
  not return; no call returns \<open>False\<close>, and the 1000 items stay queued.
\<close>

theorem enqueue_at_capacity_suspends:
  "enqueue_messages (init_async_bot_handler now) (replicate 1200 m) =
     (replicate 1000 (Some True) @ [None],
      (init_async_bot_handler now)\<lparr>message_queue := \<lparr>maxsize = 1000, items = replicate 1000 m\<rparr>\<rparr>)"
proof -
  let ?h0 = "init_async_bot_handler now :: 'a async_bot_handler"
  let ?h1 = "?h0\<lparr>message_queue := \<lparr>maxsize = 1000, items = replicate 1000 m\<rparr>\<rparr>"
  have a: "enqueue_messages ?h0 (replicate 1000 m) = (replicate 1000 (Some True), ?h1)"
    using enqueue_messages_room [of ?h0 "replicate 1000 m"]
    by (simp add: init_async_bot_handler_def qsize_def)
  have f: "full (message_queue ?h1)"
    by (simp add: full_def qsize_def)
  have b: "enqueue_messages ?h1 (replicate 200 m) = ([None], ?h1)"
    using enqueue_messages_full [OF f, of "replicate 200 m"] by simp
  have s: "replicate 1200 m = replicate 1000 m @ replicate 200 m"
    by (simp add: replicate_add [symmetric])
  show ?thesis
    unfolding s using enqueue_messages_append [OF a, of "replicate 200 m"] b by simp
qed

section \<open>The queue workers\<close>

lemma catch_and_log_returns: "fst (catch_and_log entry r) = Returns"
  by (cases r) (auto simp: catch_and_log_def split: outcome.splits)

lemma process_file_async_returns: "fst (process_file_async io lg s file_data) = Returns"
  by (simp add: process_file_async_def catch_and_log_returns)

lemma process_callback_async_returns: "fst (process_callback_async lg s callback_data) = Returns"
  by (simp add: process_callback_async_def catch_and_log_returns)

text \<open>
  No exception of the handling of an item reaches the workers, since the handlers catch
  them all: whatever is queued, a worker that is not cancelled goes through the queue,
  counts every item as processed (where it counts) and leaves the error counter as it
  was.
\<close>

lemma file_worker_counts_no_error:
  "file_worker io None q st lg s = (status, rest, st', lg', s') \<Longrightarrow>
   status = Waiting \<and> rest = [] \<and> errors st' = errors st
   \<and> files_processed st' = files_processed st + length q"
proof (induction q arbitrary: st lg s)
  case Nil
  then show ?case by simp
next
  case (Cons x q)
  obtain lg1 s1 where h: "process_file_async io lg s x = (Returns, lg1, s1)"
    using process_file_async_returns [of io lg s x]
    by (cases "process_file_async io lg s x") auto
  from Cons.prems h
  have "file_worker io None q (st\<lparr>files_processed := files_processed st + 1\<rparr>) lg1 s1
          = (status, rest, st', lg', s')"
    by simp
  from Cons.IH [OF this] show ?case by simp
qed

lemma callback_worker_counts_no_error:
  "callback_worker None q st lg s = (status, rest, st', lg', s') \<Longrightarrow>
   status = Waiting \<and> rest = [] \<and> st' = st"
proof (induction q arbitrary: lg s)
  case Nil
  then show ?case by simp
next
  case (Cons x q)
  obtain lg1 s1 where h: "process_callback_async lg s x = (Returns, lg1, s1)"
    using process_callback_async_returns [of lg s x]
    by (cases "process_callback_async lg s x") auto
  from Cons.prems h have "callback_worker None q st lg1 s1 = (status, rest, st', lg', s')"
    by simp
  from Cons.IH [OF this] show ?case .
qed

lemma process_message_async_returns:
  "fst (process_message_async py_str py_hash body s m now now') \<noteq> None"
  by (auto simp: process_message_async_def async_cached_def Let_def split: prod.splits option.splits)

lemma message_worker_counts_no_error:
  "message_worker py_str py_hash body None q st lg s = (status, rest, st', lg', s') \<Longrightarrow>
   status = Waiting \<and> rest = [] \<and> errors st' = errors st
   \<and> messages_processed st' = messages_processed st + length q"
proof (induction q arbitrary: st s)
  case Nil
  then show ?case by simp
next
  case (Cons c q)
  obtain r s1 where h: "process_message_async py_str py_hash body s (fst c) (fst (snd c))
      (snd (snd c)) = (Some r, s1)"
    using process_message_async_returns [of py_str py_hash body s "fst c" "fst (snd c)" "snd (snd c)"]
    by (cases "process_message_async py_str py_hash body s (fst c) (fst (snd c)) (snd (snd c))")
       auto
  from Cons.prems h
  have "message_worker py_str py_hash body None q
          (st\<lparr>messages_processed := messages_processed st + 1\<rparr>) lg s1
          = (status, rest, st', lg', s')"
    by simp
  from Cons.IH [OF this] show ?case by simp
qed

text \<open>
  C6. The claim: when the handling of one queued item raises, the worker logs the error,
  adds exactly 1 to the error counter and goes on, the other items being processed and
  counted. The file worker's loop has that branch, but \<^verbatim>\<open>_process_file_async\<close> catches
  every exception itself. Of ten queued file items whose third is of the type
  \<^verbatim>\<open>console_image\<close> (its handling raises \<^verbatim>\<open>AttributeError\<close>), the worker goes through
  all ten and stays alive, but counts all ten as processed, the failed one too, leaves the
  error counter at 0, and the only log line is the handler's, not the worker's.
\<close>

theorem failed_file_item_not_counted_as_error:
  "file_worker upload_ok None ten_files new_stats [] 0 =
     (Waiting, [], new_stats\<lparr>files_processed := 10\<rparr>, [Process_file_error], 9)"
  by (simp add: ten_files_def passport_item_def console_image_item_def upload_ok_def
      new_stats_def process_file_async_def handle_passport_upload_async_def catch_and_log_def)


section \<open>Memory reclamation\<close>

text \<open>
  C7. With the default threshold (0.8, that is 80 percent) and interval (30 seconds), and
  the memory readings available, the collection runs exactly when \<open>force\<close> is set, or the
  usage is above 80 percent, or more than 30 seconds have passed since the last run; the
  returned boolean says whether it ran; a run sets the last-run time to the current time
  and otherwise the optimizer is unchanged.
\<close>

theorem optimize_memory_runs_iff:
  assumes "memory_threshold mo = 0.8" and "gc_interval mo = 30"
    and "optimize_memory mo force current_time (Some m1) (Some m2) = (result, collected, mo')"
  shows "collected = (force \<or> percent_used m1 > 80 \<or> current_time - last_gc mo > 30)
    \<and> result = collected
    \<and> mo' = (if collected then mo\<lparr>last_gc := current_time\<rparr> else mo)"
  using assms by (auto simp: optimize_memory_def split: if_splits)

text \<open>Not forced, 25 percent used, 31 seconds after the last run: it runs.\<close>

theorem optimize_memory_runs_iff_witness:
  "memory_threshold (init_memory_optimizer 100) = 0.8
   \<and> gc_interval (init_memory_optimizer 100) = 30
   \<and> optimize_memory (init_memory_optimizer 100) False 131
        (Some \<lparr>total_gb = 16, used_gb = 4, available_gb = 12, percent_used = 25\<rparr>)
        (Some \<lparr>total_gb = 16, used_gb = 3, available_gb = 13, percent_used = 20\<rparr>)
      = (True, True, (init_memory_optimizer 100)\<lparr>last_gc := 131\<rparr>)
   \<and> True = (False \<or> (25::real) > 80 \<or> (131::real) - last_gc (init_memory_optimizer 100) > 30)"
  using optimize_memory_runs_iff [of "init_memory_optimizer 100" False 131
      "\<lparr>total_gb = 16, used_gb = 4, available_gb = 12, percent_used = 25\<rparr>"
      "\<lparr>total_gb = 16, used_gb = 3, available_gb = 13, percent_used = 20\<rparr>"
      True True "(init_memory_optimizer 100)\<lparr>last_gc := 131\<rparr>"]
  by (simp add: init_memory_optimizer_def optimize_memory_def)

section \<open>The parallel batch transform\<close>

lemma concat_chunks: "0 < n \<Longrightarrow> concat (chunks n xs) = xs"
proof (induction n xs rule: chunks.induct)
  case (1 n xs)
  then show ?case by (subst chunks.simps) auto
qed

lemma those_map_Some: "those (map (\<lambda>x. Some (f x)) xs) = Some (map f xs)"
  by (induction xs) auto

lemma process_chunk_total: "process_chunk (\<lambda>x. Some (f x)) chunk = map f chunk"
  by (simp add: process_chunk_def those_map_Some)

text \<open>
  When the chunks complete in the order of submission, the result of a function that
  does not raise is the input order.
\<close>

lemma process_data_parallel_in_submission_order:
  assumes "0 < max_processes p" and "0 < chunk_size p"
  shows "process_data_parallel p [0..<length (chunks (chunk_size p) data)] data
           (\<lambda>x. Some (f x)) = Some (map f data)"
proof -
  let ?cs = "chunks (chunk_size p) data"
  let ?fs = "map (process_chunk (\<lambda>x. Some (f x))) ?cs"
  have "map (\<lambda>i. ?fs ! i) [0..<length ?cs] = ?fs"
    by (metis length_map map_nth)
  moreover have "concat ?fs = map f (concat ?cs)"
    by (simp add: process_chunk_total map_concat cong: map_cong)
  ultimately show ?thesis
    using assms by (simp add: process_data_parallel_def Let_def concat_chunks)
qed

text \<open>
  C2. The claim: the result is in input order for every pool size. The code collects
  the chunk results with \<^verbatim>\<open>as_completed\<close>, in the order of completion. With 8 processors
  the chunk size is 125; on the 126 items \<open>0, ..., 125\<close> and the identity function, when
  the second chunk completes before the first, the result starts with \<open>125\<close>: the length
  is 126 but the order is not the input order.
\<close>

theorem process_data_parallel_completion_order:
  "process_data_parallel (init_multi_core_data_processor (Some 8)) [1, 0] [0..<126] Some
     = Some (125 # [0..<125])"
  by code_simp

section \<open>Writing a file\<close>

lemma tmp_neq [simp]: "p @ ''.tmp'' \<noteq> p" "p \<noteq> p @ ''.tmp''"
  by (auto dest: arg_cong [where f = length])

lemma run_steps_append:
  "run_steps os (a @ b) None fs =
     (case run_steps os a None fs of
        (True, fs') \<Rightarrow> run_steps os b None fs'
      | (False, fs') \<Rightarrow> (False, fs'))"
  by (induction a arbitrary: fs) (auto split: option.splits)

lemma run_write_bytes:
  "fs p = Some f \<Longrightarrow>
   run_steps os (map (Write_byte p) s) None fs = (True, fs(p \<mapsto> f\<lparr>content := content f @ s\<rparr>))"
proof (induction s arbitrary: fs f)
  case Nil
  then show ?case by (simp add: fun_upd_idem)
next
  case (Cons c s)
  let ?f1 = "f\<lparr>content := content f @ [c]\<rparr>"
  have "run_steps os (map (Write_byte p) (c # s)) None fs
          = run_steps os (map (Write_byte p) s) None (fs(p \<mapsto> ?f1))"
    using Cons.prems by simp
  also have "\<dots> = (True, (fs(p \<mapsto> ?f1))(p \<mapsto> ?f1\<lparr>content := content ?f1 @ s\<rparr>))"
    by (rule Cons.IH) simp
  also have "\<dots> = (True, fs(p \<mapsto> f\<lparr>content := content f @ c # s\<rparr>))"
    by simp
  finally show ?case .
qed

lemma rename_tmp:
  "os = Posix \<or> fs1 p = None \<Longrightarrow> fs1 (p @ ''.tmp'') = Some f \<Longrightarrow>
   apply_step os (Rename (p @ ''.tmp'') p) fs1 = Some ((fs1(p @ ''.tmp'' := None))(p \<mapsto> f))"
  by auto

text \<open>
  With no fault and a serialisable document the steps run to the end: the target holds
  the whole text and the temporary file is gone.
\<close>

lemma run_write_steps:
  "run_steps os (write_steps os p (Some s) stamp) None fs =
     (True, (fs(p @ ''.tmp'' := None))(p \<mapsto> \<lparr>content = s, mtime = stamp\<rparr>))"
proof -
  let ?t = "p @ ''.tmp''"
  let ?new = "\<lparr>content = s, mtime = stamp\<rparr>"
  let ?fs1 = "fs(?t \<mapsto> \<lparr>content = [], mtime = stamp\<rparr>)"
  let ?fs2 = "fs(?t \<mapsto> ?new)"
  have o: "run_steps os [Open_w ?t stamp] None fs = (True, ?fs1)"
    by simp
  have w: "run_steps os (map (Write_byte ?t) s) None ?fs1 = (True, ?fs2)"
    using run_write_bytes [of ?fs1 ?t "\<lparr>content = [], mtime = stamp\<rparr>" os s] by simp
  have e: "(?fs2(?t := None))(p \<mapsto> ?new) = (fs(?t := None))(p \<mapsto> ?new)"
    by simp
  show ?thesis
  proof (cases os)
    case Posix
    have r: "run_steps os [Rename ?t p] None ?fs2 = (True, (fs(?t := None))(p \<mapsto> ?new))"
      using rename_tmp [of os ?fs2 p ?new] Posix e by (simp del: apply_step.simps)
    have "write_steps os p (Some s) stamp
            = [Open_w ?t stamp] @ map (Write_byte ?t) s @ [Rename ?t p]"
      using Posix by (simp add: write_steps_def Let_def)
    then show ?thesis
      by (simp only: run_steps_append o w r prod.case bool.case)
  next
    case Nt
    let ?fs3 = "?fs2(p := None)"
    have d: "run_steps os [Remove_if_exists p] None ?fs2 = (True, ?fs3)"
      by simp
    have e3: "(?fs3(?t := None))(p \<mapsto> ?new) = (fs(?t := None))(p \<mapsto> ?new)"
      by (auto simp: fun_eq_iff)
    have r: "run_steps os [Rename ?t p] None ?fs3 = (True, (fs(?t := None))(p \<mapsto> ?new))"
      using rename_tmp [of os ?fs3 p ?new] e3 by (simp del: apply_step.simps)
    have "write_steps os p (Some s) stamp
            = [Open_w ?t stamp] @ map (Write_byte ?t) s @ [Remove_if_exists p] @ [Rename ?t p]"
      using Nt by (simp add: write_steps_def Let_def)
    then show ?thesis
      by (simp only: run_steps_append o w d r prod.case bool.case)
  qed
qed

lemma write_file_async_ok:
  "write_file_async os fs p (Some s) stamp (None, r) =
     (Some True, (fs(p @ ''.tmp'' := None))(p \<mapsto> \<lparr>content = s, mtime = stamp\<rparr>))"
  by (simp add: write_file_async_def run_write_steps)

lemma write_file_async_failed_no_tmp:
  "write_file_async os fs p json stamp fault = (Some False, fs') \<Longrightarrow> fs' (p @ ''.tmp'') = None"
  by (auto simp: write_file_async_def split: prod.splits bool.splits if_splits)

lemma write_file_async_returns:
  "\<not> snd fault \<Longrightarrow> fst (write_file_async os fs p json stamp fault) \<noteq> None"
  by (auto simp: write_file_async_def split: prod.splits bool.splits)

lemma run_steps_True_no_fault:
  "run_steps os sts fault fs = (True, fs') \<Longrightarrow> run_steps os sts None fs = (True, fs')"
proof (induction sts arbitrary: fault fs)
  case Nil
  then show ?case by simp
next
  case (Cons st sts)
  then show ?case by (auto split: if_splits option.splits)
qed

lemma run_steps_raise: "fst (run_steps os (sts @ [Raise_error]) fault fs) = False"
  by (induction sts arbitrary: fault fs) (auto split: option.splits)

text \<open>A write that returns \<open>True\<close> has installed the whole serialised text.\<close>

lemma write_file_async_True:
  assumes "write_file_async os fs p json stamp fault = (Some True, fs')"
  shows "\<exists>s. json = Some s
              \<and> fs' = (fs(p @ ''.tmp'' := None))(p \<mapsto> \<lparr>content = s, mtime = stamp\<rparr>)"
proof -
  from assms have r: "run_steps os (write_steps os p json stamp) (fst fault) fs = (True, fs')"
    by (auto simp: write_file_async_def split: prod.splits bool.splits if_splits)
  then have n: "run_steps os (write_steps os p json stamp) None fs = (True, fs')"
    by (rule run_steps_True_no_fault)
  show ?thesis
  proof (cases json)
    case None
    have "write_steps os p None stamp = [Open_w (p @ ''.tmp'') stamp] @ [Raise_error]"
      by (simp add: write_steps_def Let_def)
    then have "fst (run_steps os (write_steps os p None stamp) None fs) = False"
      by (simp only: run_steps_raise)
    with n None show ?thesis by simp
  next
    case (Some s)
    with n show ?thesis by (simp add: run_write_steps)
  qed
qed

text \<open>Steps on the temporary file leave every other path as it was.\<close>

lemma run_steps_frame:
  "set sts \<subseteq> insert (Open_w p t) (range (Write_byte p)) \<Longrightarrow> q \<noteq> p \<Longrightarrow>
   snd (run_steps os sts fault fs) q = fs q"
proof (induction sts arbitrary: fault fs)
  case Nil
  then show ?case by simp
next
  case (Cons st sts)
  then have IH: "\<And>fault fs. snd (run_steps os sts fault fs) q = fs q" by simp
  from Cons.prems have "st = Open_w p t \<or> st \<in> range (Write_byte p)" by auto
  then show ?case
    using Cons.prems(2) by (auto simp: IH split: option.splits)
qed

lemma posix_steps:
  "write_steps Posix p (Some s) stamp =
     (Open_w (p @ ''.tmp'') stamp # map (Write_byte (p @ ''.tmp'')) s) @ [Rename (p @ ''.tmp'') p]"
  by (simp add: write_steps_def Let_def)

text \<open>
  On POSIX a crash before the last system call (the rename) leaves the target as it was,
  and after the rename the target is the whole new text.
\<close>

lemma posix_crash_before_rename:
  assumes "k < length (write_steps Posix p json stamp)"
  shows "crash_during_write Posix fs p json stamp k p = fs p"
proof -
  let ?t = "p @ ''.tmp''"
  have "set (take k (write_steps Posix p json stamp))
       \<subseteq> insert (Open_w ?t stamp) (range (Write_byte ?t))"
  proof (cases json)
    case None
    then have "take k (write_steps Posix p json stamp) = take k [Open_w ?t stamp]"
      using assms by (cases k) (simp_all add: write_steps_def Let_def)
    moreover have "set (take k [Open_w ?t stamp]) \<subseteq> set [Open_w ?t stamp]"
      by (rule set_take_subset)
    ultimately show ?thesis by auto
  next
    case (Some s)
    let ?pre = "Open_w ?t stamp # map (Write_byte ?t) s"
    from assms Some have "k \<le> length ?pre" by (simp add: posix_steps)
    then have "take k (?pre @ [Rename ?t p]) = take k ?pre"
      by (simp del: append.simps)
    then have "take k (write_steps Posix p json stamp) = take k ?pre"
      using Some by (simp only: posix_steps)
    moreover have "set (take k ?pre) \<subseteq> set ?pre" by (rule set_take_subset)
    ultimately show ?thesis by auto
  qed
  then show ?thesis
    unfolding crash_during_write_def by (rule run_steps_frame) simp
qed

lemma posix_crash_after_rename:
  assumes "length (write_steps Posix p (Some s) stamp) \<le> k"
  shows "crash_during_write Posix fs p (Some s) stamp k p = Some \<lparr>content = s, mtime = stamp\<rparr>"
  using assms by (simp add: crash_during_write_def run_write_steps)

text \<open>
  C1. The claim: every save installs the new text with one atomic replace, so that a
  crash at any point leaves the previous complete document. On Windows the code removes
  the target and then renames the temporary file. With \<^verbatim>\<open>data/users.json\<close> holding \<open>OLD\<close>
  and the text \<open>NEW\<close> to write, a crash after the fifth system call (open, three bytes,
  remove) leaves no file at the target; and when the rename raises there, the call
  returns \<open>False\<close> with both the target and the temporary file gone.
\<close>

theorem windows_write_loses_previous_document:
  "crash_during_write Nt
     [''data/users.json'' \<mapsto> \<lparr>content = ''OLD'', mtime = 1\<rparr>]
     ''data/users.json'' (Some ''NEW'') 2 5 ''data/users.json'' = None
   \<and> write_file_async Nt
     [''data/users.json'' \<mapsto> \<lparr>content = ''OLD'', mtime = 1\<rparr>]
     ''data/users.json'' (Some ''NEW'') 2 (Some 5, False) = (Some False, Map.empty)"
  by (simp add: crash_during_write_def write_file_async_def write_steps_def Let_def)

section \<open>Saving and loading documents\<close>

text \<open>
  C9. The claim: a save that fails while writing has removed the temporary file before it
  returns \<open>False\<close>. As amended, from the code: when a save whose document serialises
  within the size ceiling returns \<open>False\<close> and the \<^verbatim>\<open>os.remove\<close> of the handler did not
  itself raise, the temporary path (the target path followed by \<^verbatim>\<open>.tmp\<close>) holds no file
  afterwards.
\<close>

theorem failed_save_removes_tmp:
  assumes "json_dumps P (heap w ! data) = Some json_str"
    and "length json_str \<le> max_file_size (file_handler (db w))"
    and "\<not> snd fault"
    and "save_data P w filename data now stamp fault timestamp = (False, w')"
  shows "files w' (path_join P (data_dir (db w)) filename @ ''.tmp'') = None"
proof -
  let ?p = "path_join P (data_dir (db w)) filename"
  obtain ok fs' where wr: "write_file_async (os_name P) (files w) ?p
        (json_dumps_indent P (heap w ! data)) stamp fault = (ok, fs')"
    by (cases "write_file_async (os_name P) (files w) ?p
        (json_dumps_indent P (heap w ! data)) stamp fault")
  from write_file_async_returns [OF assms(3), of "os_name P" "files w" ?p
      "json_dumps_indent P (heap w ! data)" stamp] wr
  have "ok \<noteq> None" by simp
  with assms(1,2,4) wr have "ok = Some False" and "w' = w\<lparr>files := fs'\<rparr>"
    by (auto simp: save_data_def Let_def split: prod.splits bool.splits option.splits)
  with wr show ?thesis
    using write_file_async_failed_no_tmp [of "os_name P" "files w" ?p _ stamp fault fs'] by simp
qed

text \<open>
  The write of the two-entry document fails at its fourth system call, part of the text
  already being in the temporary file, and the removal goes through.
\<close>

lemma example_failed_save:
  "save_data example_platform example_world ''users.json'' 1 10 2 (Some 3, False)
     ''20250101_120000'' = (False, example_world)"
  by (simp add: save_data_def example_platform_def example_world_def init_db_manager_def
      init_file_handler_def write_file_async_def write_steps_def Let_def posix_join_def
      example_dumps_def example_dumps_indent_def json_item_def dq_def doc_AB_def)

theorem failed_save_removes_tmp_witness:
  "json_dumps example_platform (heap example_world ! 1) = Some (example_dumps doc_AB)
   \<and> length (example_dumps doc_AB) \<le> max_file_size (file_handler (db example_world))
   \<and> \<not> snd (Some (3::nat), False)
   \<and> save_data example_platform example_world ''users.json'' 1 10 2 (Some 3, False)
       ''20250101_120000'' = (False, example_world)
   \<and> files example_world
       (path_join example_platform (data_dir (db example_world)) ''users.json'' @ ''.tmp'') = None"
proof -
  have a: "json_dumps example_platform (heap example_world ! 1) = Some (example_dumps doc_AB)"
    by (simp add: example_platform_def example_world_def)
  have b: "length (example_dumps doc_AB) \<le> max_file_size (file_handler (db example_world))"
    by (simp add: example_dumps_def doc_AB_def json_item_def example_world_def
        init_db_manager_def init_file_handler_def)
  have c: "\<not> snd (Some (3::nat), False)" by simp
  show ?thesis
    using a b c example_failed_save failed_save_removes_tmp [OF a b c example_failed_save]
    by simp
qed

text \<open>
  Against the claim as stated: the same write fails at its fourth system call and the
  \<^verbatim>\<open>os.remove\<close> of the handler raises as well. The save returns \<open>False\<close> and the
  temporary file stays, holding the two bytes written so far.
\<close>

theorem failed_save_leaves_tmp_counterexample:
  "fst (save_data example_platform example_world ''users.json'' 1 10 2 (Some 3, True)
          ''20250101_120000'') = False
   \<and> files (snd (save_data example_platform example_world ''users.json'' 1 10 2 (Some 3, True)
          ''20250101_120000'')) ''data/users.json.tmp''
       = Some \<lparr>content = [CHR ''{'', CHR 0x0A], mtime = 2\<rparr>"
  by (simp add: save_data_def example_platform_def example_world_def init_db_manager_def
      init_file_handler_def write_file_async_def write_steps_def Let_def posix_join_def
      example_dumps_def example_dumps_indent_def json_item_def dq_def doc_AB_def)

text \<open>The cache operations on the key that was just read or stored.\<close>

lemma map_of_filter_neq: "map_of (filter (\<lambda>l. fst l \<noteq> k) ls) k = None"
  by (induction ls) auto

lemma map_of_setitem:
  "map_of (links (ttl_setitem c k v now)) k = Some (v, now + cache_ttl c)"
  by (simp add: ttl_setitem_def Let_def map_add_def map_of_filter_neq)

lemma cache_ttl_setitem [simp]: "cache_ttl (ttl_setitem c k v now) = cache_ttl c"
  by (simp add: ttl_setitem_def Let_def)

lemma ttl_contains_getitem: "ttl_contains c k now = (fst (ttl_getitem c k now) \<noteq> None)"
  by (auto simp: ttl_contains_def ttl_getitem_def split: option.splits)

lemma getitem_hit:
  "map_of (links c) k = Some (v, e) \<Longrightarrow> now < e \<Longrightarrow>
   ttl_getitem c k now = (Some v, c\<lparr>links := filter (\<lambda>l. fst l \<noteq> k) (links c) @ [(k, v, e)]\<rparr>)"
  by (simp add: ttl_getitem_def)

lemma getitem_expired:
  "map_of (links c) k = Some (v, e) \<Longrightarrow> \<not> now < e \<Longrightarrow> fst (ttl_getitem c k now) = None"
  by (simp add: ttl_getitem_def)

lemma map_of_after_getitem:
  "map_of (links c) k = Some (v, e) \<Longrightarrow>
   map_of (links (snd (ttl_getitem c k now))) k = Some (v, e)"
  by (simp add: ttl_getitem_def map_add_def map_of_filter_neq)

lemma save_data_True:
  assumes "save_data P w filename data now stamp fault ts = (True, w')"
  shows "\<exists>s. json_dumps_indent P (heap w ! data) = Some s
     \<and> files w' = ((files w)(path_join P (data_dir (db w)) filename @ ''.tmp'' := None))
                     (path_join P (data_dir (db w)) filename \<mapsto> \<lparr>content = s, mtime = stamp\<rparr>)
     \<and> heap w' = heap w @ [heap w ! data]
     \<and> db w' = (db w)\<lparr>db_cache :=
          ttl_setitem (db_cache (db w)) (''load:'' @ filename) (length (heap w)) now\<rparr>"
proof -
  let ?p = "path_join P (data_dir (db w)) filename"
  obtain ok fs' where wr: "write_file_async (os_name P) (files w) ?p
        (json_dumps_indent P (heap w ! data)) stamp fault = (ok, fs')"
    by (cases "write_file_async (os_name P) (files w) ?p
        (json_dumps_indent P (heap w ! data)) stamp fault")
  from assms wr have ok: "ok = Some True"
    by (auto simp: save_data_def Let_def split: option.splits if_splits bool.splits)
  from assms wr ok have w': "w' = w\<lparr>files := fs', heap := heap w @ [heap w ! data],
        db := (db w)\<lparr>db_cache :=
          ttl_setitem (db_cache (db w)) (''load:'' @ filename) (length (heap w)) now\<rparr>\<rparr>"
    by (auto simp: save_data_def Let_def dict_copy_def new_dict_def
        split: option.splits if_splits)
  from write_file_async_True [OF wr [unfolded ok]] w' show ?thesis by auto
qed

lemma save_data_keeps:
  assumes "save_data P w filename data now stamp fault ts = (r, w')"
  shows "cache_ttl (db_cache (db w')) = cache_ttl (db_cache (db w))
     \<and> file_handler (db w') = file_handler (db w) \<and> data_dir (db w') = data_dir (db w)"
  using assms
  by (auto simp: save_data_def archive_large_data_def Let_def
      split: option.splits if_splits prod.splits bool.splits)

lemma load_data_hit:
  assumes "map_of (links (db_cache (db w))) (''load:'' @ filename) = Some (c, e)" and "now < e"
  shows "load_data P w filename now =
     (length (heap w),
      w\<lparr>heap := heap w @ [heap w ! c],
        db := (db w)\<lparr>db_cache := snd (ttl_getitem (db_cache (db w)) (''load:'' @ filename) now)\<rparr>\<rparr>)"
  using assms by (simp add: load_data_def Let_def getitem_hit dict_copy_def new_dict_def)


lemma read_file_async_parsed:
  assumes "fs p = Some \<lparr>content = s, mtime = m\<rparr>" and "\<not> list_all is_space s"
    and "json_loads P s = Some d"
  shows "read_file_async P fs h p = (length h, h @ [d])"
  using assms by (simp add: read_file_async_def new_dict_def)

lemma process_file_async_read_parsed:
  assumes "fs p = Some \<lparr>content = s, mtime = m\<rparr>" and "length s \<le> max_file_size fh"
    and "\<not> ttl_contains (fh_cache fh) (p, ''read'', m) now"
    and "\<not> list_all is_space s" and "json_loads P s = Some d"
  shows "process_file_async_read P fh fs h p now =
     (Some (length h),
      fh\<lparr>fh_cache := ttl_setitem (fh_cache fh) (p, ''read'', m) (length h) now\<rparr>, h @ [d])"
proof -
  from assms(3) obtain c' where g: "ttl_getitem (fh_cache fh) (p, ''read'', m) now = (None, c')"
    by (cases "ttl_getitem (fh_cache fh) (p, ''read'', m) now")
       (simp add: ttl_contains_getitem)
  show ?thesis
    using assms(1,2) g
      read_file_async_parsed [where fs = fs and p = p and h = h, OF assms(1,4,5)]
    by (simp add: process_file_async_read_def Let_def)
qed

lemma load_data_from_disk:
  assumes miss: "fst (ttl_getitem (db_cache (db w)) (''load:'' @ filename) now) = None"
    and fl: "files w (path_join P (data_dir (db w)) filename) = Some \<lparr>content = s, mtime = m\<rparr>"
    and size: "length s \<le> max_file_size (file_handler (db w))"
    and fhmiss: "\<not> ttl_contains (fh_cache (file_handler (db w)))
                     (path_join P (data_dir (db w)) filename, ''read'', m) now"
    and nb: "\<not> list_all is_space s" and loads: "json_loads P s = Some d"
    and res: "load_data P w filename now = (a, w')"
  shows "heap w' ! a = d"
proof -
  let ?p = "path_join P (data_dir (db w)) filename"
  from miss obtain c' where g: "ttl_getitem (db_cache (db w)) (''load:'' @ filename) now = (None, c')"
    by (cases "ttl_getitem (db_cache (db w)) (''load:'' @ filename) now") simp
  note pr = process_file_async_read_parsed
    [where fs = "files w" and p = ?p and h = "heap w", OF fl size fhmiss nb loads]
  show ?thesis
  proof (cases "d = []")
    case True
    with res g pr show ?thesis
      by (auto simp: load_data_def Let_def new_dict_def dict_copy_def nth_append)
  next
    case False
    with res g pr show ?thesis
      by (auto simp: load_data_def Let_def new_dict_def dict_copy_def nth_append)
  qed
qed

text \<open>
  After a save and then a successful save of \<open>d2\<close> under the same name, the cache entry of
  the name holds a dictionary with the contents of \<open>d2\<close>. The next load returns those
  contents from the cache while the entry has not expired; afterwards it returns them
  from the file only when the written text is within the handler's size limit, is read
  back by \<^verbatim>\<open>json.loads\<close> as the document, and the file handler's own cache holds nothing
  under the new modification time.
\<close>

lemma save_save_load:
  assumes s1: "save_data P w0 filename d1 now1 stamp1 fault1 ts1 = (r1, w1)"
    and s2: "save_data P w1 filename d2 now2 stamp2 fault2 ts2 = (True, w2)"
    and l: "load_data P w2 filename now3 = (a, w3)"
    and t: "now3 < now2 + cache_ttl (db_cache (db w0))
        \<or> (\<exists>s. json_dumps_indent P (heap w1 ! d2) = Some s
              \<and> length s \<le> max_file_size (file_handler (db w0))
              \<and> \<not> list_all is_space s
              \<and> json_loads P s = Some (heap w1 ! d2)
              \<and> \<not> ttl_contains (fh_cache (file_handler (db w0)))
                    (path_join P (data_dir (db w0)) filename, ''read'', stamp2) now3)"
  shows "heap w3 ! a = heap w1 ! d2
     \<and> (\<exists>c. map_of (links (db_cache (db w2))) (''load:'' @ filename)
               = Some (c, now2 + cache_ttl (db_cache (db w0)))
            \<and> heap w2 ! c = heap w1 ! d2)"
proof -
  let ?key = "''load:'' @ filename"
  let ?p = "path_join P (data_dir (db w0)) filename"
  let ?ttl = "cache_ttl (db_cache (db w0))"
  from save_data_keeps [OF s1] have k1: "cache_ttl (db_cache (db w1)) = ?ttl"
    "file_handler (db w1) = file_handler (db w0)" "data_dir (db w1) = data_dir (db w0)"
    by simp_all
  from save_data_True [OF s2] k1 obtain s where
    js: "json_dumps_indent P (heap w1 ! d2) = Some s"
    and fs2: "files w2 = ((files w1)(?p @ ''.tmp'' := None))(?p \<mapsto> \<lparr>content = s, mtime = stamp2\<rparr>)"
    and h2: "heap w2 = heap w1 @ [heap w1 ! d2]"
    and db2: "db w2 = (db w1)\<lparr>db_cache := ttl_setitem (db_cache (db w1)) ?key (length (heap w1)) now2\<rparr>"
    by auto
  have m: "map_of (links (db_cache (db w2))) ?key = Some (length (heap w1), now2 + ?ttl)"
    by (simp add: db2 map_of_setitem k1)
  have c: "heap w2 ! length (heap w1) = heap w1 ! d2"
    by (simp add: h2)
  have "heap w3 ! a = heap w1 ! d2"
  proof (cases "now3 < now2 + ?ttl")
    case True
    from load_data_hit [OF m True, of P] l h2 show ?thesis
      by (auto simp: nth_append)
  next
    case False
    with t js have size: "length s \<le> max_file_size (file_handler (db w2))"
      and nb: "\<not> list_all is_space s"
      and loads: "json_loads P s = Some (heap w1 ! d2)"
      and fhmiss: "\<not> ttl_contains (fh_cache (file_handler (db w2)))
                    (path_join P (data_dir (db w2)) filename, ''read'', stamp2) now3"
      by (auto simp: db2 k1)
    have miss: "fst (ttl_getitem (db_cache (db w2)) ?key now3) = None"
      using getitem_expired [OF m False] .
    have fl: "files w2 (path_join P (data_dir (db w2)) filename)
                  = Some \<lparr>content = s, mtime = stamp2\<rparr>"
      by (simp add: fs2 db2 k1)
    from load_data_from_disk [where w = w2, OF miss fl size fhmiss nb loads l]
    show ?thesis .
  qed
  with m c show ?thesis by blast
qed


lemma save_data_ok:
  assumes "json_dumps P (heap w ! data) = Some js"
    and "length js \<le> max_file_size (file_handler (db w))"
    and "json_dumps_indent P (heap w ! data) = Some s"
  shows "save_data P w filename data now stamp (None, r) ts =
     (True,
      w\<lparr>files := ((files w)(path_join P (data_dir (db w)) filename @ ''.tmp'' := None))
                   (path_join P (data_dir (db w)) filename \<mapsto> \<lparr>content = s, mtime = stamp\<rparr>),
        heap := heap w @ [heap w ! data],
        db := (db w)\<lparr>db_cache :=
          ttl_setitem (db_cache (db w)) (''load:'' @ filename) (length (heap w)) now\<rparr>\<rparr>)"
  using assms
  by (simp add: save_data_def Let_def write_file_async_ok dict_copy_def new_dict_def)

lemma example_first_save:
  "save_data example_platform example_world ''users.json'' 0 10 2 (None, False) ''20250101_120000''
     = (True, example_world_1)"
proof -
  have "save_data example_platform example_world ''users.json'' 0 10 2 (None, False) ''20250101_120000'' =
     (True,
      example_world\<lparr>files := ((files example_world)
           (path_join example_platform (data_dir (db example_world)) ''users.json'' @ ''.tmp'' := None))
           (path_join example_platform (data_dir (db example_world)) ''users.json''
              \<mapsto> \<lparr>content = example_dumps_indent doc_A, mtime = 2\<rparr>),
        heap := heap example_world @ [heap example_world ! 0],
        db := (db example_world)\<lparr>db_cache :=
          ttl_setitem (db_cache (db example_world)) (''load:'' @ ''users.json'')
             (length (heap example_world)) 10\<rparr>\<rparr>)"
    by (rule save_data_ok [where js = "example_dumps doc_A"])
       (simp_all add: example_platform_def example_world_def init_db_manager_def
          init_file_handler_def doc_A_def example_dumps_def json_item_def)
  also have "\<dots> = (True, example_world_1)"
    by (simp add: example_platform_def example_world_def example_world_1_def
          init_db_manager_def init_file_handler_def TTLCache_def posix_join_def
          ttl_setitem_def ttl_expire_def Let_def)
  finally show ?thesis .
qed

lemma example_second_save:
  "save_data example_platform example_world_1 ''users.json'' 1 20 3 (None, False) ''20250101_120000''
     = (True, example_world_2)"
proof -
  have "save_data example_platform example_world_1 ''users.json'' 1 20 3 (None, False) ''20250101_120000'' =
     (True,
      example_world_1\<lparr>files := ((files example_world_1)
           (path_join example_platform (data_dir (db example_world_1)) ''users.json'' @ ''.tmp'' := None))
           (path_join example_platform (data_dir (db example_world_1)) ''users.json''
              \<mapsto> \<lparr>content = example_dumps_indent doc_AB, mtime = 3\<rparr>),
        heap := heap example_world_1 @ [heap example_world_1 ! 1],
        db := (db example_world_1)\<lparr>db_cache :=
          ttl_setitem (db_cache (db example_world_1)) (''load:'' @ ''users.json'')
             (length (heap example_world_1)) 20\<rparr>\<rparr>)"
    by (rule save_data_ok [where js = "example_dumps doc_AB"])
       (simp_all add: example_platform_def example_world_1_def init_db_manager_def
          init_file_handler_def doc_AB_def example_dumps_def json_item_def)
  also have "\<dots> = (True, example_world_2)"
    by (simp add: example_platform_def example_world_1_def example_world_2_def
          init_db_manager_def init_file_handler_def TTLCache_def posix_join_def
          ttl_setitem_def ttl_expire_def Let_def)
  finally show ?thesis .
qed

text \<open>
  C8. A load served from the cache returns a new dictionary (not the cached one) with the
  cached contents; whatever the caller then puts in the returned dictionary's cell, the
  cached dictionary keeps its contents and a later load from the cache returns those
  contents again. Likewise a successful save caches a new dictionary with the contents
  of the one it was given, which a later change of the caller's dictionary leaves as it
  is.
\<close>

theorem cache_holds_top_level_copies:
  assumes c: "map_of (links (db_cache (db w))) (''load:'' @ filename) = Some (c, e)"
    and cv: "c < length (heap w)"
    and t1: "now1 < e" and t2: "now2 < e"
    and l1: "load_data P w filename now1 = (a, w1)"
    and l2: "load_data P (w1\<lparr>heap := (heap w1)[a := d]\<rparr>) filename now2 = (b, w2)"
    and dv: "data < length (heap u)"
    and s: "save_data P u name data now stamp fault ts = (True, u1)"
  shows "a \<noteq> c \<and> heap w1 ! a = heap w ! c
       \<and> (heap w1)[a := d] ! c = heap w ! c
       \<and> heap w2 ! b = heap w ! c
       \<and> (\<exists>c'. map_of (links (db_cache (db u1))) (''load:'' @ name)
                   = Some (c', now + cache_ttl (db_cache (db u)))
              \<and> c' \<noteq> data \<and> heap u1 ! c' = heap u ! data
              \<and> (heap u1)[data := d] ! c' = heap u ! data)"
proof -
  let ?key = "''load:'' @ filename"
  let ?n = "length (heap w)"
  let ?D = "heap w ! c"
  from load_data_hit [OF c t1, of P] l1
  have a: "a = ?n" and h1: "heap w1 = heap w @ [?D]"
    and db1: "db w1 = (db w)\<lparr>db_cache := snd (ttl_getitem (db_cache (db w)) ?key now1)\<rparr>"
    by auto
  let ?w1 = "w1\<lparr>heap := (heap w1)[a := d]\<rparr>"
  have m1: "map_of (links (db_cache (db ?w1))) ?key = Some (c, e)"
    using map_of_after_getitem [OF c, of now1] by (simp add: db1)
  have hw1: "heap ?w1 = heap w @ [d]"
    by (simp add: h1 a)
  from load_data_hit [OF m1 t2, of P] l2
  have b: "b = Suc ?n" and h2: "heap w2 = heap w @ [d, ?D]"
    using cv by (auto simp: hw1 nth_append)
  have load: "a \<noteq> c \<and> heap w1 ! a = ?D \<and> (heap w1)[a := d] ! c = ?D \<and> heap w2 ! b = ?D"
    using cv by (simp add: a b h1 h2 nth_append)
  let ?m = "length (heap u)"
  from save_data_True [OF s] have g1: "heap u1 = heap u @ [heap u ! data]"
    and du1: "db u1 = (db u)\<lparr>db_cache :=
        ttl_setitem (db_cache (db u)) (''load:'' @ name) ?m now\<rparr>"
    by auto
  have "map_of (links (db_cache (db u1))) (''load:'' @ name)
          = Some (?m, now + cache_ttl (db_cache (db u)))"
    by (simp add: du1 map_of_setitem)
  moreover have "?m \<noteq> data \<and> heap u1 ! ?m = heap u ! data
       \<and> (heap u1)[data := d] ! ?m = heap u ! data"
    using dv by (simp add: g1 nth_append)
  ultimately show ?thesis
    using load by blast
qed


text \<open>
  The two saves of the example at clocks 10 and 20, and a load at clock 100, after the
  entry has expired: the small document comes back from the file.
\<close>

lemma save_save_load_example:
  "save_data example_platform example_world ''users.json'' 0 10 2 (None, False) ''20250101_120000''
     = (True, example_world_1)
   \<and> save_data example_platform example_world_1 ''users.json'' 1 20 3 (None, False) ''20250101_120000''
     = (True, example_world_2)
   \<and> \<not> (100 < 20 + cache_ttl (db_cache (db example_world)))
   \<and> heap (snd (load_data example_platform example_world_2 ''users.json'' 100))
        ! fst (load_data example_platform example_world_2 ''users.json'' 100) = doc_AB"
proof -
  let ?L = "load_data example_platform example_world_2 ''users.json'' 100"
  let ?s = "example_dumps_indent doc_AB"
  have l: "?L = (fst ?L, snd ?L)" by simp
  have d1: "json_dumps_indent example_platform (heap example_world_1 ! 1) = Some ?s"
    by (simp add: example_platform_def example_world_1_def)
  have d2: "length ?s \<le> max_file_size (file_handler (db example_world))"
    by (simp add: example_dumps_indent_def doc_AB_def json_item_def example_world_def
        init_db_manager_def init_file_handler_def)
  have d3: "\<not> list_all is_space ?s"
    by (simp add: example_dumps_indent_def doc_AB_def is_space_def)
  have "example_loads ?s = Some doc_AB"
    by code_simp
  then have d4: "json_loads example_platform ?s = Some (heap example_world_1 ! 1)"
    by (simp add: example_platform_def example_world_1_def)
  have d5: "\<not> ttl_contains (fh_cache (file_handler (db example_world)))
        (path_join example_platform (data_dir (db example_world)) ''users.json'', ''read'', 3) 100"
    by (simp add: ttl_contains_def example_world_def init_db_manager_def init_file_handler_def
        TTLCache_def)
  have t: "100 < 20 + cache_ttl (db_cache (db example_world))
        \<or> (\<exists>s. json_dumps_indent example_platform (heap example_world_1 ! 1) = Some s
              \<and> length s \<le> max_file_size (file_handler (db example_world))
              \<and> \<not> list_all is_space s
              \<and> json_loads example_platform s = Some (heap example_world_1 ! 1)
              \<and> \<not> ttl_contains (fh_cache (file_handler (db example_world)))
                    (path_join example_platform (data_dir (db example_world)) ''users.json'',
                     ''read'', 3) 100)"
    using d1 d2 d3 d4 d5 by blast
  have e: "\<not> (100 < 20 + cache_ttl (db_cache (db example_world)))"
    by (simp add: example_world_def init_db_manager_def TTLCache_def)
  have "heap example_world_1 ! 1 = doc_AB"
    by (simp add: example_world_1_def)
  then show ?thesis
    using example_first_save example_second_save e
      save_save_load [OF example_first_save example_second_save l t]
    by simp
qed

text \<open>
  In the example a load at clock 20 returns a copy of the cached first document; the
  caller overwrites it; a load at clock 30 returns the first document again.
\<close>

theorem cache_holds_top_level_copies_witness:
  "map_of (links (db_cache (db example_world_1))) (''load:'' @ ''users.json'') = Some (2, 70)
   \<and> 2 < length (heap example_world_1) \<and> (20::real) < 70 \<and> (30::real) < 70
   \<and> 0 < length (heap example_world)
   \<and> save_data example_platform example_world ''users.json'' 0 10 2 (None, False) ''20250101_120000''
       = (True, example_world_1)
   \<and> fst (load_data example_platform example_world_1 ''users.json'' 20) \<noteq> 2
   \<and> heap (snd (load_data example_platform example_world_1 ''users.json'' 20))
        ! fst (load_data example_platform example_world_1 ''users.json'' 20) = doc_A
   \<and> heap (snd (load_data example_platform
        ((snd (load_data example_platform example_world_1 ''users.json'' 20))
           \<lparr>heap := (heap (snd (load_data example_platform example_world_1 ''users.json'' 20)))
              [fst (load_data example_platform example_world_1 ''users.json'' 20) := doc_AB]\<rparr>)
        ''users.json'' 30))
      ! fst (load_data example_platform
        ((snd (load_data example_platform example_world_1 ''users.json'' 20))
           \<lparr>heap := (heap (snd (load_data example_platform example_world_1 ''users.json'' 20)))
              [fst (load_data example_platform example_world_1 ''users.json'' 20) := doc_AB]\<rparr>)
        ''users.json'' 30) = doc_A"
proof -
  let ?L1 = "load_data example_platform example_world_1 ''users.json'' 20"
  let ?W = "(snd ?L1)\<lparr>heap := (heap (snd ?L1))[fst ?L1 := doc_AB]\<rparr>"
  let ?L2 = "load_data example_platform ?W ''users.json'' 30"
  have c: "map_of (links (db_cache (db example_world_1))) (''load:'' @ ''users.json'') = Some (2, 70)"
    by (simp add: example_world_1_def)
  have cv: "2 < length (heap example_world_1)"
    by (simp add: example_world_1_def)
  have t1: "(20::real) < 70" and t2: "(30::real) < 70"
    by simp_all
  have l1: "?L1 = (fst ?L1, snd ?L1)" by simp
  have l2: "?L2 = (fst ?L2, snd ?L2)" by simp
  have dv: "0 < length (heap example_world)"
    by (simp add: example_world_def)
  have h: "heap example_world_1 ! 2 = doc_A"
    by (simp add: example_world_1_def)
  show ?thesis
    using c cv dv example_first_save h
      cache_holds_top_level_copies [OF c cv t1 t2 l1 l2 dv example_first_save]
    by simp
qed

text \<open>
  A load that misses the cache and finds the file longer than the handler's limit returns
  an empty dictionary.
\<close>

lemma load_data_file_over_limit:
  assumes miss: "fst (ttl_getitem (db_cache (db w)) (''load:'' @ filename) now) = None"
    and fl: "files w (path_join P (data_dir (db w)) filename) = Some f"
    and big: "max_file_size (file_handler (db w)) < length (content f)"
    and res: "load_data P w filename now = (a, w')"
  shows "heap w' ! a = []"
proof -
  from miss obtain c' where g: "ttl_getitem (db_cache (db w)) (''load:'' @ filename) now = (None, c')"
    by (cases "ttl_getitem (db_cache (db w)) (''load:'' @ filename) now") simp
  have "process_file_async_read P (file_handler (db w)) (files w) (heap w)
          (path_join P (data_dir (db w)) filename) now = (None, file_handler (db w), heap w)"
    using fl big by (simp add: process_file_async_read_def Let_def)
  with res g show ?thesis
    by (auto simp: load_data_def Let_def new_dict_def dict_copy_def nth_append)
qed

lemma edge_dumps:
  "length (example_dumps doc_edge) = 52428800"
  "length (example_dumps_indent doc_edge) = 52428803"
  by (simp_all add: example_dumps_def example_dumps_indent_def doc_edge_def json_item_def)

lemma edge_save:
  "save_data example_platform edge_world ''users.json'' 0 10 2 (None, False) ''20250101_120000'' =
    (True,
     edge_world\<lparr>files := [''data/users.json'' \<mapsto>
                         \<lparr>content = example_dumps_indent doc_edge, mtime = 2\<rparr>],
        heap := [doc_edge, doc_edge],
        db := (init_db_manager ''data'')\<lparr>db_cache :=
          \<lparr>cache_maxsize = 500, cache_ttl = 60, links = [(''load:users.json'', 1, 70)]\<rparr>\<rparr>\<rparr>)"
proof -
  have "save_data example_platform edge_world ''users.json'' 0 10 2 (None, False)
          ''20250101_120000'' =
     (True,
      edge_world\<lparr>files := ((files edge_world)
           (path_join example_platform (data_dir (db edge_world)) ''users.json'' @ ''.tmp'' := None))
           (path_join example_platform (data_dir (db edge_world)) ''users.json''
              \<mapsto> \<lparr>content = example_dumps_indent doc_edge, mtime = 2\<rparr>),
        heap := heap edge_world @ [heap edge_world ! 0],
        db := (db edge_world)\<lparr>db_cache :=
          ttl_setitem (db_cache (db edge_world)) (''load:'' @ ''users.json'')
             (length (heap edge_world)) 10\<rparr>\<rparr>)"
    by (rule save_data_ok [where js = "example_dumps doc_edge"])
       (simp_all add: example_platform_def edge_world_def init_db_manager_def
          init_file_handler_def edge_dumps)
  also have "\<dots> = (True,
     edge_world\<lparr>files := [''data/users.json'' \<mapsto>
                         \<lparr>content = example_dumps_indent doc_edge, mtime = 2\<rparr>],
        heap := [doc_edge, doc_edge],
        db := (init_db_manager ''data'')\<lparr>db_cache :=
          \<lparr>cache_maxsize = 500, cache_ttl = 60, links = [(''load:users.json'', 1, 70)]\<rparr>\<rparr>\<rparr>)"
    by (simp add: example_platform_def edge_world_def
          init_db_manager_def init_file_handler_def TTLCache_def posix_join_def
          ttl_setitem_def ttl_expire_def Let_def)
  finally show ?thesis .
qed

text \<open>
  C5. The claim: after a save and then a successful save of a document under the same
  name, the next load returns that document. The save tests the ceiling on the compact
  text but writes the longer indented text, and the file handler does not read a file
  over the ceiling. For the document whose compact text is exactly 50 MB long the save
  returns \<open>True\<close>; a load at clock 100, after the 60 seconds of the cache entry, finds the
  file three bytes over the ceiling and returns an empty dictionary, not the document.
\<close>

theorem saved_document_loads_empty_after_expiry:
  "fst (save_data example_platform edge_world ''users.json'' 0 10 2 (None, False)
          ''20250101_120000'') = True
   \<and> heap (snd (load_data example_platform
          (snd (save_data example_platform edge_world ''users.json'' 0 10 2 (None, False)
                  ''20250101_120000''))
          ''users.json'' 100))
       ! fst (load_data example_platform
          (snd (save_data example_platform edge_world ''users.json'' 0 10 2 (None, False)
                  ''20250101_120000''))
          ''users.json'' 100) = []
   \<and> heap edge_world ! 0 = doc_edge \<and> doc_edge \<noteq> []"
proof -
  let ?w1 = "edge_world\<lparr>files := [''data/users.json'' \<mapsto>
                         \<lparr>content = example_dumps_indent doc_edge, mtime = 2\<rparr>],
        heap := [doc_edge, doc_edge],
        db := (init_db_manager ''data'')\<lparr>db_cache :=
          \<lparr>cache_maxsize = 500, cache_ttl = 60, links = [(''load:users.json'', 1, 70)]\<rparr>\<rparr>\<rparr>"
  let ?L = "load_data example_platform ?w1 ''users.json'' 100"
  have miss: "fst (ttl_getitem (db_cache (db ?w1)) (''load:'' @ ''users.json'') 100) = None"
    by (simp add: ttl_getitem_def)
  have fl: "files ?w1 (path_join example_platform (data_dir (db ?w1)) ''users.json'')
              = Some \<lparr>content = example_dumps_indent doc_edge, mtime = 2\<rparr>"
    by (simp add: example_platform_def init_db_manager_def posix_join_def)
  have big: "max_file_size (file_handler (db ?w1))
               < length (content \<lparr>content = example_dumps_indent doc_edge, mtime = 2\<rparr>)"
    by (simp add: init_db_manager_def init_file_handler_def edge_dumps)
  have l: "?L = (fst ?L, snd ?L)" by simp
  have "heap (snd ?L) ! fst ?L = []"
    using load_data_file_over_limit [where w = ?w1 and filename = "''users.json''"
        and P = example_platform, OF miss fl big l] .
  moreover have "heap edge_world ! 0 = doc_edge \<and> doc_edge \<noteq> []"
    by (simp add: edge_world_def doc_edge_def)
  ultimately show ?thesis
    by (simp add: edge_save)
qed

section \<open>Saving a document over the size ceiling\<close>

text \<open>A write touches its target and its temporary file only.\<close>

lemma write_steps_subset:
  "set (write_steps os p json stamp)
     \<subseteq> insert (Open_w (p @ ''.tmp'') stamp) (range (Write_byte (p @ ''.tmp'')))
        \<union> {Remove_if_exists p, Rename (p @ ''.tmp'') p, Raise_error}"
  by (cases json) (auto simp: write_steps_def Let_def)

lemma run_steps_frame_write:
  "set sts \<subseteq> insert (Open_w t stamp) (range (Write_byte t))
        \<union> {Remove_if_exists p, Rename t p, Raise_error} \<Longrightarrow>
   q \<noteq> t \<Longrightarrow> q \<noteq> p \<Longrightarrow> snd (run_steps os sts fault fs) q = fs q"
proof (induction sts arbitrary: fault fs)
  case Nil
  then show ?case by simp
next
  case (Cons st sts)
  then have IH: "\<And>fault fs. snd (run_steps os sts fault fs) q = fs q" by simp
  from Cons.prems(1) have "st = Open_w t stamp \<or> st \<in> range (Write_byte t)
      \<or> st = Remove_if_exists p \<or> st = Rename t p \<or> st = Raise_error"
    by auto
  then show ?case
    using Cons.prems(2,3) by (auto simp: IH split: option.splits if_splits)
qed

lemma write_file_async_frame:
  assumes "write_file_async os fs p json stamp fault = (ok, fs')"
    and "q \<noteq> p" and "q \<noteq> p @ ''.tmp''"
  shows "fs' q = fs q"
proof -
  have "snd (run_steps os (write_steps os p json stamp) (fst fault) fs) q = fs q"
    by (rule run_steps_frame_write [OF write_steps_subset assms(3) assms(2)])
  with assms show ?thesis
    by (auto simp: write_file_async_def split: prod.splits bool.splits if_splits)
qed

lemma save_data_oversized:
  assumes "json_dumps P (heap w ! data) = Some js"
    and "max_file_size (file_handler (db w)) < length js"
  shows "save_data P w filename data now stamp fault ts
           = (False, archive_large_data P w filename data ts stamp fault)"
  using assms by (simp add: save_data_def Let_def)

lemma archive_large_data_ok:
  assumes "json_dumps_indent P (heap w ! data) = Some s"
  shows "archive_large_data P w filename data ts stamp (None, r) =
     w\<lparr>files := ((files w)(archive_file_path P (data_dir (db w)) filename ts @ ''.tmp'' := None))
                  (archive_file_path P (data_dir (db w)) filename ts
                     \<mapsto> \<lparr>content = s, mtime = stamp\<rparr>)\<rparr>"
  using assms by (simp add: archive_large_data_def Let_def write_file_async_ok)

lemma archive_large_data_frame:
  assumes "q \<noteq> archive_file_path P (data_dir (db w)) filename ts"
    and "q \<noteq> archive_file_path P (data_dir (db w)) filename ts @ ''.tmp''"
  shows "files (archive_large_data P w filename data ts stamp fault) q = files w q
       \<and> heap (archive_large_data P w filename data ts stamp fault) = heap w
       \<and> db (archive_large_data P w filename data ts stamp fault) = db w"
proof -
  let ?A = "archive_file_path P (data_dir (db w)) filename ts"
  obtain ok fs' where wr: "write_file_async (os_name P) (files w) ?A
        (json_dumps_indent P (heap w ! data)) stamp fault = (ok, fs')"
    by (cases "write_file_async (os_name P) (files w) ?A
        (json_dumps_indent P (heap w ! data)) stamp fault")
  from write_file_async_frame [OF wr assms] wr show ?thesis
    by (simp add: archive_large_data_def Let_def)
qed

lemma example_archive_path:
  "archive_file_path example_platform ''data'' ''users.json'' ''20250101_120000''
     = ''data/archives/users_archive_20250101_120000.json''"
  by code_simp

lemma big_dumps: "max_file_size (file_handler (db big_world)) < length (example_dumps doc_big)"
  by (simp add: big_world_def init_db_manager_def init_file_handler_def example_dumps_def
      doc_big_def json_item_def)

lemma big_save:
  "save_data example_platform big_world ''users.json'' 0 10 2 (None, False) ''20250101_120000'' =
    (False,
     big_world\<lparr>files :=
       [''data/users.json'' \<mapsto> \<lparr>content = example_dumps_indent doc_A, mtime = 1\<rparr>,
        ''data/archives/users_archive_20250101_120000.json''
           \<mapsto> \<lparr>content = example_dumps_indent doc_big, mtime = 2\<rparr>]\<rparr>)"
proof -
  have a: "json_dumps example_platform (heap big_world ! 0) = Some (example_dumps doc_big)"
    by (simp add: example_platform_def big_world_def)
  have b: "json_dumps_indent example_platform (heap big_world ! 0)
             = Some (example_dumps_indent doc_big)"
    by (simp add: example_platform_def big_world_def)
  have d: "data_dir (db big_world) = ''data''"
    by (simp add: big_world_def init_db_manager_def)
  have "((files big_world)(''data/archives/users_archive_20250101_120000.json'' @ ''.tmp'' := None))
          (''data/archives/users_archive_20250101_120000.json''
             \<mapsto> \<lparr>content = example_dumps_indent doc_big, mtime = 2\<rparr>)
        = [''data/users.json'' \<mapsto> \<lparr>content = example_dumps_indent doc_A, mtime = 1\<rparr>,
        ''data/archives/users_archive_20250101_120000.json''
           \<mapsto> \<lparr>content = example_dumps_indent doc_big, mtime = 2\<rparr>]"
    by (simp add: big_world_def)
  then show ?thesis
    by (simp add: save_data_oversized [OF a big_dumps] archive_large_data_ok [OF b] d
        example_archive_path)
qed

lemma big_text_differs: "replicate 52428800 (CHR ''A'') \<noteq> ''A''"
  by (auto dest: arg_cong [where f = length])

text \<open>
  What a save over the ceiling does: it returns \<open>False\<close>, leaves the target file, the
  cache and the dictionaries as they were, and what it writes to the archive path, when
  no call of that write raises, is the indented text of the document it was given.
\<close>

lemma oversized_save_archives_given_document:
  assumes "json_dumps P (heap w ! data) = Some js"
    and "max_file_size (file_handler (db w)) < length js"
    and "json_dumps_indent P (heap w ! data) = Some s"
    and "path_join P (data_dir (db w)) filename \<noteq> archive_file_path P (data_dir (db w)) filename ts"
    and "path_join P (data_dir (db w)) filename
           \<noteq> archive_file_path P (data_dir (db w)) filename ts @ ''.tmp''"
    and "save_data P w filename data now stamp fault ts = (r, w')"
  shows "r = False
     \<and> files w' (path_join P (data_dir (db w)) filename)
         = files w (path_join P (data_dir (db w)) filename)
     \<and> heap w' = heap w \<and> db w' = db w
     \<and> (fst fault = None \<longrightarrow>
          files w' (archive_file_path P (data_dir (db w)) filename ts)
            = Some \<lparr>content = s, mtime = stamp\<rparr>)"
proof -
  from assms(6) save_data_oversized [OF assms(1,2), of filename now stamp fault ts]
  have r: "r = False" and w': "w' = archive_large_data P w filename data ts stamp fault"
    by simp_all
  from archive_large_data_frame [OF assms(4,5), of data stamp fault]
  have "files w' (path_join P (data_dir (db w)) filename)
         = files w (path_join P (data_dir (db w)) filename) \<and> heap w' = heap w \<and> db w' = db w"
    by (simp add: w')
  moreover have "fst fault = None \<longrightarrow>
          files w' (archive_file_path P (data_dir (db w)) filename ts)
            = Some \<lparr>content = s, mtime = stamp\<rparr>"
    using archive_large_data_ok [OF assms(3), of filename ts stamp "snd fault"]
    by (cases fault) (auto simp: w')
  ultimately show ?thesis using r by blast
qed


text \<open>
  C4. The claim: a save over the ceiling does not write the document to the target,
  archives the previous full document of that name under a timestamped name and returns
  failure. The code hands \<^verbatim>\<open>_archive_large_data\<close> the document it was given, under the
  comment that an archive of the old data is made. With the first example document on
  disk and the oversized one given to the save, the save returns \<open>False\<close> and the target
  keeps the previous text, but the archive file holds the text of the oversized document,
  which is not the text of the previous document.
\<close>

theorem oversized_save_archives_new_document:
  "map_option content
     (files (snd (save_data example_platform big_world ''users.json'' 0 10 2 (None, False)
                    ''20250101_120000''))
        ''data/archives/users_archive_20250101_120000.json'')
     = Some (example_dumps_indent doc_big)
   \<and> fst (save_data example_platform big_world ''users.json'' 0 10 2 (None, False)
              ''20250101_120000'') = False
   \<and> map_option content
     (files (snd (save_data example_platform big_world ''users.json'' 0 10 2 (None, False)
                    ''20250101_120000''))
        ''data/users.json'')
     = Some (example_dumps_indent doc_A)
   \<and> map_option content (files big_world ''data/users.json'') = Some (example_dumps_indent doc_A)
   \<and> example_dumps_indent doc_big \<noteq> example_dumps_indent doc_A"
  by (simp add: big_save)
     (simp add: big_world_def example_dumps_indent_def doc_big_def doc_A_def json_item_def
        big_text_differs)

section \<open>Memoized message processing\<close>

text \<open>How a key that is kept fares under the operations of the cache.\<close>

lemma kept_map_of:
  assumes "kept k E j ls"
  shows "\<exists>v e. map_of ls k = Some (v, e) \<and> E \<le> e"
proof -
  from assms obtain pre v e post where ls: "ls = pre @ (k, v, e) # post"
    and pre: "k \<notin> fst ` set pre" and e: "E \<le> e"
    by (auto simp: kept_def)
  from pre have "map_of pre k = None" by (simp add: map_of_eq_None_iff)
  then have "map_of ls k = Some (v, e)" by (simp add: ls map_add_def)
  with e show ?thesis by blast
qed

lemma kept_mono:
  assumes "kept k E j ls" and "j \<le> j'"
  shows "kept k E j' ls"
proof -
  from assms(1) obtain pre v e post where "ls = pre @ (k, v, e) # post"
    and "k \<notin> fst ` set pre" and "k \<notin> fst ` set post" and "E \<le> e" and "length post \<le> j"
    by (auto simp: kept_def)
  moreover from this assms(2) have "length post \<le> j'" by simp
  ultimately show ?thesis unfolding kept_def by blast
qed

lemma filter_split:
  "P x \<Longrightarrow> filter P (pre @ x # post) = filter P pre @ x # filter P post"
  by simp

lemma kept_move_other:
  assumes "kept k E j ls" and "k' \<noteq> k"
  shows "kept k E (Suc j) (filter (\<lambda>l. fst l \<noteq> k') ls @ [(k', x)])"
proof -
  from assms(1) obtain pre v e post where ls: "ls = pre @ (k, v, e) # post"
    and pre: "k \<notin> fst ` set pre" and post: "k \<notin> fst ` set post" and e: "E \<le> e"
    and len: "length post \<le> j"
    by (auto simp: kept_def)
  let ?P = "\<lambda>l. fst l \<noteq> k'"
  have "filter ?P ls @ [(k', x)] = filter ?P pre @ (k, v, e) # (filter ?P post @ [(k', x)])"
    using assms(2) by (simp add: ls)
  moreover have "k \<notin> fst ` set (filter ?P pre)" using pre by auto
  moreover have "k \<notin> fst ` set (filter ?P post @ [(k', x)])" using post assms(2) by auto
  moreover have "length (filter ?P post @ [(k', x)]) \<le> Suc j"
    using len le_trans [OF length_filter_le len] by simp
  ultimately show ?thesis
    unfolding kept_def using e by blast
qed

lemma kept_move_same:
  assumes "kept k E j ls" and "map_of ls k = Some (v, e)"
  shows "kept k E 0 (filter (\<lambda>l. fst l \<noteq> k) ls @ [(k, v, e)])"
proof -
  from kept_map_of [OF assms(1)] assms(2) have "E \<le> e" by auto
  moreover have "k \<notin> fst ` set (filter (\<lambda>l. fst l \<noteq> k) ls)" by auto
  ultimately show ?thesis
    unfolding kept_def by (intro exI [of _ "filter (\<lambda>l. fst l \<noteq> k) ls"] exI [of _ v]
        exI [of _ e] exI [of _ "[]"]) simp
qed

lemma kept_expire:
  assumes "kept k E j ls" and "now < E"
  shows "kept k E j (ttl_expire now ls)"
proof -
  from assms(1) obtain pre v e post where ls: "ls = pre @ (k, v, e) # post"
    and pre: "k \<notin> fst ` set pre" and post: "k \<notin> fst ` set post" and e: "E \<le> e"
    and len: "length post \<le> j"
    by (auto simp: kept_def)
  let ?P = "\<lambda>l. now < snd (snd l)"
  have "ttl_expire now ls = filter ?P pre @ (k, v, e) # filter ?P post"
    using assms(2) e by (simp add: ls ttl_expire_def)
  moreover have "k \<notin> fst ` set (filter ?P pre)" using pre by auto
  moreover have "k \<notin> fst ` set (filter ?P post)" using post by auto
  moreover have "length (filter ?P post) \<le> j"
    using le_trans [OF length_filter_le len] .
  ultimately show ?thesis
    unfolding kept_def using e by blast
qed

lemma popitems_keeps:
  "length post + 2 \<le> n \<Longrightarrow>
   \<exists>pre'. ttl_popitems n (pre @ x # post) = pre' @ x # post \<and> set pre' \<subseteq> set pre"
proof (induction pre)
  case Nil
  then show ?case by simp
next
  case (Cons p pre)
  then show ?case
    by (cases "n < length ((p # pre) @ x # post) + 1") (auto intro: exI [of _ "p # pre"])
qed

lemma kept_popitems:
  assumes "kept k E j ls" and "j + 2 \<le> n"
  shows "kept k E j (ttl_popitems n ls)"
proof -
  from assms(1) obtain pre v e post where ls: "ls = pre @ (k, v, e) # post"
    and pre: "k \<notin> fst ` set pre" and post: "k \<notin> fst ` set post" and e: "E \<le> e"
    and len: "length post \<le> j"
    by (auto simp: kept_def)
  from len assms(2) have "length post + 2 \<le> n" by simp
  from popitems_keeps [OF this, of pre "(k, v, e)"] obtain pre' where
    "ttl_popitems n ls = pre' @ (k, v, e) # post" and "set pre' \<subseteq> set pre"
    by (auto simp: ls)
  moreover from this pre have "k \<notin> fst ` set pre'" by auto
  ultimately show ?thesis
    unfolding kept_def using post e len by blast
qed

lemma kept_setitem_other:
  assumes "kept k E j (links c)" and "k' \<noteq> k" and "now < E" and "j + 2 \<le> cache_maxsize c"
  shows "kept k E (Suc j) (links (ttl_setitem c k' v now))"
proof -
  let ?live = "ttl_expire now (links c)"
  let ?room = "if map_of ?live k' = None then ttl_popitems (cache_maxsize c) ?live else ?live"
  have "kept k E j ?live" using assms(1,3) by (rule kept_expire)
  then have "kept k E j ?room" using assms(4) by (simp add: kept_popitems)
  from kept_move_other [OF this assms(2), of "(v, now + cache_ttl c)"] show ?thesis
    by (simp add: ttl_setitem_def Let_def)
qed

lemma kept_setitem_same:
  "kept k (now + cache_ttl c) 0 (links (ttl_setitem c k v now))"
proof -
  let ?ls = "filter (\<lambda>l. fst l \<noteq> k)
     (if map_of (ttl_expire now (links c)) k = None
      then ttl_popitems (cache_maxsize c) (ttl_expire now (links c))
      else ttl_expire now (links c))"
  have "k \<notin> fst ` set ?ls" by auto
  then have "kept k (now + cache_ttl c) 0 (?ls @ [(k, v, now + cache_ttl c)])"
    unfolding kept_def
    by (intro exI [of _ ?ls] exI [of _ v] exI [of _ "now + cache_ttl c"] exI [of _ "[]"]) simp
  then show ?thesis by (simp add: ttl_setitem_def Let_def)
qed


lemma process_message_hit:
  assumes "map_of (links (fst st)) (cache_key_of ''_process_message_async'' py_str py_hash m)
             = Some (v, e)"
    and "now < e"
  shows "process_message_async py_str py_hash body st m now now' =
     (Some v,
      (fst st)\<lparr>links :=
         filter (\<lambda>l. fst l \<noteq> cache_key_of ''_process_message_async'' py_str py_hash m)
           (links (fst st))
         @ [(cache_key_of ''_process_message_async'' py_str py_hash m, v, e)]\<rparr>,
      snd st)"
  using assms
  by (simp add: process_message_async_def async_cached_def Let_def ttl_getitem_def)

lemma process_message_miss:
  assumes "\<not> ttl_contains (fst st) (cache_key_of ''_process_message_async'' py_str py_hash m) now"
  shows "process_message_async py_str py_hash body st m now now' =
     (Some (),
      ttl_setitem (fst st) (cache_key_of ''_process_message_async'' py_str py_hash m) () now',
      fst (snd st) @ [m], body (snd (snd st)) m)"
proof -
  from assms obtain c' where
    "ttl_getitem (fst st) (cache_key_of ''_process_message_async'' py_str py_hash m) now = (None, c')"
    by (cases "ttl_getitem (fst st) (cache_key_of ''_process_message_async'' py_str py_hash m) now")
       (auto simp: ttl_contains_def ttl_getitem_def split: option.splits if_splits)
  then show ?thesis
    by (simp add: process_message_async_def async_cached_def Let_def)
qed

lemma maxsize_after_message:
  "cache_maxsize (fst (snd (process_message_async py_str py_hash body st m now now')))
     = cache_maxsize (fst st)"
  by (auto simp: process_message_async_def async_cached_def Let_def ttl_getitem_def
      ttl_setitem_def split: option.splits prod.splits if_splits)

lemma kept_after_message:
  assumes k: "kept k E j (links (fst st))" and "j + 2 \<le> cache_maxsize (fst st)"
    and "now < E" and "now' < E"
  shows "kept k E (Suc j)
           (links (fst (snd (process_message_async py_str py_hash body st m now now'))))"
proof -
  let ?km = "cache_key_of ''_process_message_async'' py_str py_hash m"
  show ?thesis
  proof (cases "ttl_contains (fst st) ?km now")
    case True
    then obtain v e where mo: "map_of (links (fst st)) ?km = Some (v, e)" and live: "now < e"
      by (auto simp: ttl_contains_def split: option.splits)
    show ?thesis
    proof (cases "?km = k")
      case True
      from kept_mono [OF kept_move_same [OF k mo [unfolded True]], of "Suc j"] True
      show ?thesis by (simp add: process_message_hit [OF mo live])
    next
      case False
      from kept_move_other [OF k False, of "(v, e)"]
      show ?thesis by (simp add: process_message_hit [OF mo live])
    qed
  next
    case False
    have "?km \<noteq> k"
    proof
      assume "?km = k"
      with kept_map_of [OF k] obtain v e where "map_of (links (fst st)) ?km = Some (v, e)"
        and "E \<le> e" by auto
      with assms(3) have "ttl_contains (fst st) ?km now"
        by (simp add: ttl_contains_def)
      with False show False ..
    qed
    from kept_setitem_other [OF k this assms(4,2), of "()"]
    show ?thesis by (simp add: process_message_miss [OF False])
  qed
qed

lemma kept_after_messages:
  assumes "kept k E j (links (fst st))" and "cache_maxsize (fst st) = 100"
    and "list_all (\<lambda>c. fst (snd c) < E \<and> snd (snd c) < E) calls"
    and "j + length calls \<le> 99"
  shows "kept k E (j + length calls)
           (links (fst (process_messages py_str py_hash body st calls)))"
  using assms
proof (induction calls arbitrary: st j)
  case Nil
  then show ?case by simp
next
  case (Cons c calls)
  let ?st = "snd (process_message_async py_str py_hash body st (fst c) (fst (snd c))
     (snd (snd c)))"
  have "kept k E (Suc j) (links (fst ?st))"
    using Cons.prems by (intro kept_after_message) simp_all
  moreover have "cache_maxsize (fst ?st) = 100"
    using Cons.prems(2) by (simp add: maxsize_after_message)
  moreover have "list_all (\<lambda>c. fst (snd c) < E \<and> snd (snd c) < E) calls"
    using Cons.prems(3) by simp
  moreover have "Suc j + length calls \<le> 99"
    using Cons.prems(4) by simp
  ultimately have "kept k E (Suc j + length calls)
      (links (fst (process_messages py_str py_hash body ?st calls)))"
    by (rule Cons.IH)
  then show ?case by simp
qed

lemma process_messages_append:
  "process_messages py_str py_hash body st (a @ b)
     = process_messages py_str py_hash body (process_messages py_str py_hash body st a) b"
  by (induction a arbitrary: st) simp_all

lemma popitems_room: "length ls + 1 \<le> n \<Longrightarrow> ttl_popitems n ls = ls"
  by (cases ls) simp_all

lemma setitem_fresh:
  assumes "k \<notin> fst ` set (links c)" and "list_all (\<lambda>l. now < snd (snd l)) (links c)"
    and "length (links c) + 1 \<le> cache_maxsize c"
  shows "ttl_setitem c k v now = c\<lparr>links := links c @ [(k, v, now + cache_ttl c)]\<rparr>"
proof -
  have live: "ttl_expire now (links c) = links c"
    using assms(2) by (simp add: ttl_expire_def list_all_iff)
  have none: "map_of (links c) k = None"
    using assms(1) by (simp add: map_of_eq_None_iff)
  have keep: "filter (\<lambda>l. fst l \<noteq> k) (links c) = links c"
    using assms(1) by (auto simp: filter_id_conv)
  show ?thesis
    by (simp add: ttl_setitem_def Let_def live none popitems_room [OF assms(3)] keep)
qed

lemma setitem_full:
  assumes "k \<notin> fst ` set (l # ls)" and "list_all (\<lambda>l. now < snd (snd l)) (l # ls)"
    and "length ls + 1 = cache_maxsize c" and "links c = l # ls"
  shows "ttl_setitem c k v now = c\<lparr>links := ls @ [(k, v, now + cache_ttl c)]\<rparr>"
proof -
  have live: "ttl_expire now (links c) = l # ls"
    using assms(2,4) by (simp add: ttl_expire_def list_all_iff)
  have none: "map_of (l # ls) k = None"
    using assms(1) by (rule map_of_eq_None_iff [THEN iffD2])
  have pop: "ttl_popitems (cache_maxsize c) (l # ls) = ls"
    using assms(3) popitems_room [of ls "cache_maxsize c"] by simp
  have keep: "filter (\<lambda>l. fst l \<noteq> k) ls = ls"
    using assms(1) by (auto simp: filter_id_conv)
  show ?thesis
    unfolding ttl_setitem_def Let_def live none pop by (simp add: keep)
qed

lemma not_contains_fresh: "k \<notin> fst ` set (links c) \<Longrightarrow> \<not> ttl_contains c k now"
  by (simp add: ttl_contains_def map_of_eq_None_iff [THEN iffD2])

lemma fill_cache:
  assumes "distinct (map (cache_key_of ''_process_message_async'' py_str py_hash) ms)"
    and "set (map (cache_key_of ''_process_message_async'' py_str py_hash) ms)
            \<inter> fst ` set (links c) = {}"
    and "list_all (\<lambda>l. t < snd (snd l)) (links c)" and "0 < cache_ttl c"
    and "length (links c) + length ms \<le> cache_maxsize c"
  shows "process_messages py_str py_hash body (c, ex, s) (map (\<lambda>m. (m, t, t)) ms) =
     (c\<lparr>links := links c
           @ map (\<lambda>m. (cache_key_of ''_process_message_async'' py_str py_hash m, (),
                        t + cache_ttl c)) ms\<rparr>,
      ex @ ms, foldl body s ms)"
  using assms
proof (induction ms arbitrary: c ex s)
  case Nil
  then show ?case by simp
next
  case (Cons m ms)
  let ?K = "cache_key_of ''_process_message_async'' py_str py_hash"
  let ?c1 = "c\<lparr>links := links c @ [(?K m, (), t + cache_ttl c)]\<rparr>"
  from Cons.prems(2) have fresh: "?K m \<notin> fst ` set (links c)" by auto
  have step: "snd (process_message_async py_str py_hash body (c, ex, s) m t t)
                = (?c1, ex @ [m], body s m)"
    using process_message_miss [of "(c, ex, s)" py_str py_hash m t body t]
      not_contains_fresh [OF fresh, of t]
      setitem_fresh [OF fresh Cons.prems(3), of "()"] Cons.prems(5)
    by simp
  have "process_messages py_str py_hash body (?c1, ex @ [m], body s m)
          (map (\<lambda>m. (m, t, t)) ms) =
     (?c1\<lparr>links := links ?c1 @ map (\<lambda>m. (?K m, (), t + cache_ttl ?c1)) ms\<rparr>,
      (ex @ [m]) @ ms, foldl body (body s m) ms)"
  proof (rule Cons.IH)
    show "distinct (map ?K ms)" using Cons.prems(1) by simp
    show "set (map ?K ms) \<inter> fst ` set (links ?c1) = {}"
      using Cons.prems(1,2) by auto
    show "list_all (\<lambda>l. t < snd (snd l)) (links ?c1)"
      using Cons.prems(3,4) by simp
    show "0 < cache_ttl ?c1" using Cons.prems(4) by simp
    show "length (links ?c1) + length ms \<le> cache_maxsize ?c1"
      using Cons.prems(5) by simp
  qed
  then show ?case
    by (simp add: step)
qed

lemma example_key_inj:
  "cache_key_of ''_process_message_async'' example_str id a
     = cache_key_of ''_process_message_async'' example_str id b \<Longrightarrow> a = b"
  by (auto simp: cache_key_of_def example_str_def dest: arg_cong [where f = length])

lemma example_keys_distinct:
  "distinct (map (cache_key_of ''_process_message_async'' example_str id) [i..<j])"
  by (auto simp: distinct_map intro!: inj_onI dest: example_key_inj)

lemma example_first_message:
  "snd (process_message_async example_str id example_body (message_cache, [], ()) 0 0 0)
     = (message_cache\<lparr>links :=
          [(cache_key_of ''_process_message_async'' example_str id 0, (), 300)]\<rparr>, [0], ())"
proof -
  have "\<not> ttl_contains message_cache (cache_key_of ''_process_message_async'' example_str id 0) 0"
    by (simp add: ttl_contains_def message_cache_def TTLCache_def)
  from process_message_miss [of "(message_cache, [], ())" example_str id 0 0 example_body 0, 
      simplified, OF this]
  show ?thesis
    by (simp add: message_cache_def TTLCache_def ttl_setitem_def ttl_expire_def Let_def)
qed

text \<open>
  C10. The claim: of two equal messages processed within the 300 seconds, the body runs
  only for the first. As amended, from the code: the cache of the decorator holds at most
  100 keys and evicts the least recently used one. When the first of two messages with
  the same argument text is processed on a miss, at most 99 handler calls lie between
  the two, and every clock reading up to the second lookup is before the first store plus
  300 seconds, then the first call ran the body and the second returns the cached result
  and leaves the record of body runs and the bot's state as they were.
\<close>

theorem duplicate_message_not_reprocessed:
  assumes size: "cache_maxsize (fst st) = 100" and ttl: "cache_ttl (fst st) = 300"
    and same: "py_str m' = py_str m"
    and first: "\<not> ttl_contains (fst st)
                   (cache_key_of ''_process_message_async'' py_str py_hash m) t1"
    and st1: "st1 = snd (process_message_async py_str py_hash body st m t1 t1')"
    and few: "length calls \<le> 99"
    and times: "list_all (\<lambda>c. fst (snd c) < t1' + 300 \<and> snd (snd c) < t1' + 300) calls"
    and st2: "st2 = process_messages py_str py_hash body st1 calls"
    and t2: "t2 < t1' + 300"
  shows "snd st1 = (fst (snd st) @ [m], body (snd (snd st)) m)
     \<and> fst (process_message_async py_str py_hash body st2 m' t2 t2') = Some ()
     \<and> snd (snd (process_message_async py_str py_hash body st2 m' t2 t2')) = snd st2"
proof -
  let ?k = "cache_key_of ''_process_message_async'' py_str py_hash m"
  have km: "cache_key_of ''_process_message_async'' py_str py_hash m' = ?k"
    by (simp add: cache_key_of_def same)
  have s1: "st1 = (ttl_setitem (fst st) ?k () t1', fst (snd st) @ [m], body (snd (snd st)) m)"
    by (simp add: st1 process_message_miss [OF first])
  have "kept ?k (t1' + 300) 0 (links (fst st1))"
    using kept_setitem_same [of ?k t1' "fst st" "()"] by (simp add: s1 ttl)
  moreover have "cache_maxsize (fst st1) = 100"
    by (simp add: s1 size ttl_setitem_def Let_def)
  ultimately have "kept ?k (t1' + 300) (0 + length calls) (links (fst st2))"
    unfolding st2 using times few by (intro kept_after_messages) simp_all
  from kept_map_of [OF this] obtain v e where
    mo: "map_of (links (fst st2)) ?k = Some (v, e)" and "t1' + 300 \<le> e"
    by auto
  with t2 have "t2 < e" by simp
  from process_message_hit [OF mo [folded km] this, of body t2'] s1 show ?thesis
    by simp
qed

text \<open>Message 0, then the 99 messages \<open>1, ..., 99\<close>, then message 0 again at clock 2.\<close>

theorem duplicate_message_not_reprocessed_witness:
  "cache_maxsize (fst (message_cache, ([]::nat list), ())) = 100
   \<and> cache_ttl (fst (message_cache, ([]::nat list), ())) = 300
   \<and> \<not> ttl_contains (fst (message_cache, ([]::nat list), ()))
          (cache_key_of ''_process_message_async'' example_str id 0) 0
   \<and> length ninety_nine_messages \<le> 99
   \<and> list_all (\<lambda>c. fst (snd c) < 0 + 300 \<and> snd (snd c) < 0 + 300) ninety_nine_messages
   \<and> (2::real) < 0 + 300
   \<and> snd (snd (process_message_async example_str id example_body
         (process_messages example_str id example_body
            (snd (process_message_async example_str id example_body (message_cache, [], ()) 0 0 0))
            ninety_nine_messages)
         0 2 2))
       = snd (process_messages example_str id example_body
            (snd (process_message_async example_str id example_body (message_cache, [], ()) 0 0 0))
            ninety_nine_messages)"
proof -
  let ?st = "(message_cache, ([]::nat list), ())"
  have size: "cache_maxsize (fst ?st) = 100" and ttl: "cache_ttl (fst ?st) = 300"
    by (simp_all add: message_cache_def TTLCache_def)
  have first: "\<not> ttl_contains (fst ?st) (cache_key_of ''_process_message_async'' example_str id 0) 0"
    by (simp add: ttl_contains_def message_cache_def TTLCache_def)
  have few: "length ninety_nine_messages \<le> 99"
    by (simp add: ninety_nine_messages_def)
  have times: "list_all (\<lambda>c. fst (snd c) < 0 + 300 \<and> snd (snd c) < 0 + 300) ninety_nine_messages"
    by (simp add: ninety_nine_messages_def list_all_iff)
  have t2: "(2::real) < 0 + 300" by simp
  show ?thesis
    using size ttl first few times t2
      duplicate_message_not_reprocessed [OF size ttl refl first refl few times refl t2,
        of example_body 2]
    by simp
qed

text \<open>
  Against the claim as stated: message 0 is processed at clock 0, the hundred messages
  \<open>1, ..., 100\<close> at clock 1, and message 0 again at clock 2, well within the 300
  seconds. Its key has been evicted, and the body runs on message 0 a second time.
\<close>

theorem duplicate_message_evicted_counterexample:
  "fst (snd (process_messages example_str id example_body
        (snd (process_message_async example_str id example_body (message_cache, [], ()) 0 0 0))
        hundred_messages)) = [0..<101]
   \<and> fst (snd (snd (process_message_async example_str id example_body
        (process_messages example_str id example_body
           (snd (process_message_async example_str id example_body (message_cache, [], ()) 0 0 0))
           hundred_messages)
        0 2 2))) = [0..<101] @ [0]"
proof -
  let ?K = "cache_key_of ''_process_message_async'' example_str id"
  define ms where "ms = [1..<(100::nat)]"
  define c1 where "c1 = message_cache\<lparr>links := [(?K 0, (), 300)]\<rparr>"
  define c2 where "c2 = c1\<lparr>links := (?K 0, (), 300) # map (\<lambda>m. (?K m, (), 301)) ms\<rparr>"
  define c3 where "c3 = c1\<lparr>links := map (\<lambda>m. (?K m, (), 301)) ms @ [(?K 100, (), 301)]\<rparr>"
  have len: "length ms = 99" and set_ms: "set ms = {1..<100}"
    by (simp_all add: ms_def)
  have u: "[1..<101] = ms @ [100::nat]"
    unfolding ms_def using upt_Suc_append [of 1 100] by simp
  have hm: "hundred_messages = map (\<lambda>n. (n, 1, 1)) ms @ [(100, 1, 1)]"
    unfolding hundred_messages_def u by simp
  have par: "cache_maxsize c1 = 100" "cache_ttl c1 = 300" "links c1 = [(?K 0, (), 300)]"
    by (simp_all add: c1_def message_cache_def TTLCache_def)
  have k0: "?K 0 \<notin> ?K ` set ms"
    by (auto simp: set_ms dest!: example_key_inj)
  have k100: "?K 100 \<notin> ?K ` set ms" "?K 100 \<noteq> ?K 0"
    by (auto simp: set_ms dest!: example_key_inj)
  have first: "snd (process_message_async example_str id example_body (message_cache, [], ()) 0 0 0)
     = (c1, [0], ())"
    by (simp add: example_first_message c1_def)
  have "process_messages example_str id example_body (c1, [0], ()) (map (\<lambda>m. (m, 1, 1)) ms)
     = (c1\<lparr>links := links c1 @ map (\<lambda>m. (?K m, (), 1 + cache_ttl c1)) ms\<rparr>,
        [0] @ ms, foldl example_body () ms)"
  proof (rule fill_cache)
    show "distinct (map ?K ms)" unfolding ms_def by (rule example_keys_distinct)
    show "set (map ?K ms) \<inter> fst ` set (links c1) = {}"
      using k0 by (simp add: par)
    show "list_all (\<lambda>l. 1 < snd (snd l)) (links c1)" by (simp add: par)
    show "0 < cache_ttl c1" by (simp add: par)
    show "length (links c1) + length ms \<le> cache_maxsize c1" by (simp add: par len)
  qed
  then have filled: "process_messages example_str id example_body (c1, [0], ())
      (map (\<lambda>m. (m, 1, 1)) ms) = (c2, 0 # ms, ())"
    by (simp add: par c2_def)
  have keys2: "fst ` set (links c2) = insert (?K 0) (?K ` set ms)"
    by (auto simp: c2_def image_iff)
  have miss100: "\<not> ttl_contains c2 (?K 100) 1"
    by (rule not_contains_fresh) (use k100 keys2 in auto)
  have "ttl_setitem c2 (?K 100) () 1
          = c2\<lparr>links := map (\<lambda>m. (?K m, (), 301)) ms @ [(?K 100, (), 1 + cache_ttl c2)]\<rparr>"
  proof (rule setitem_full)
    show "?K 100 \<notin> fst ` set ((?K 0, (), 300::real) # map (\<lambda>m. (?K m, (), 301)) ms)"
      using k100 by (auto simp: image_iff)
    show "list_all (\<lambda>l. 1 < snd (snd l))
            ((?K 0, (), 300::real) # map (\<lambda>m. (?K m, (), 301)) ms)"
      by (simp add: list_all_iff)
    show "length (map (\<lambda>m. (?K m, (), 301::real)) ms) + 1 = cache_maxsize c2"
      by (simp add: c2_def par len)
    show "links c2 = (?K 0, (), 300) # map (\<lambda>m. (?K m, (), 301)) ms"
      by (simp add: c2_def)
  qed
  then have set100: "ttl_setitem c2 (?K 100) () 1 = c3"
    by (simp add: c2_def c3_def par)
  have step100: "snd (process_message_async example_str id example_body (c2, 0 # ms, ()) 100 1 1)
      = (c3, 0 # ms @ [100], ())"
    using process_message_miss [of "(c2, 0 # ms, ())" example_str id 100 1 example_body 1]
      miss100 set100 by simp
  have st2: "process_messages example_str id example_body
      (snd (process_message_async example_str id example_body (message_cache, [], ()) 0 0 0))
      hundred_messages = (c3, 0 # ms @ [100], ())"
    by (simp add: first hm process_messages_append filled step100)
  have keys3: "fst ` set (links c3) = insert (?K 100) (?K ` set ms)"
    by (auto simp: c3_def image_iff)
  have miss0: "\<not> ttl_contains c3 (?K 0) 2"
    by (rule not_contains_fresh) (use k0 k100 keys3 in auto)
  have again: "fst (snd (snd (process_message_async example_str id example_body
        (c3, 0 # ms @ [100], ()) 0 2 2))) = (0 # ms @ [100]) @ [0]"
    using process_message_miss [of "(c3, 0 # ms @ [100], ())" example_str id 0 2 example_body 2]
      miss0 by simp
  have "[0..<101] = 0 # [1..<101]"
    by (simp add: upt_conv_Cons)
  then have all: "0 # ms @ [100] = [0..<101]"
    unfolding u by simp
  show ?thesis
    unfolding st2 again using all by simp
qed

end
